theory Spec2Isabelle
  imports Complex_Main "HOL-Library.Multiset" "HOL-Library.Char_ord" "HOL-Library.List_Lexorder"
begin

section \<open>Well state container of the OPM simulators (WellState.cpp)\<close>

text \<open>
  A value of the C++ type \<^verbatim>\<open>double\<close> is read as the real number it stands for
  (infinities and NaN are outside the model). A single multiplication or division of
  the source is the real operation; the additions that \<^verbatim>\<open>calculateSegmentRates\<close>
  accumulates are rounded after every step, as \<open>dadd\<close> below has it. Vector indices and
  sizes (\<^verbatim>\<open>int\<close>, \<^verbatim>\<open>std::size_t\<close>) are natural numbers; the one place where the source
  converts a signed \<^verbatim>\<open>int\<close> to \<^verbatim>\<open>std::size_t\<close> writes the wrap-around out.
\<close>

type_synonym double = real

subsection \<open>Addition of doubles\<close>

text \<open>
  IEEE 754 binary64 with the default rounding: the result of an addition is the exact
  sum rounded to the nearest number with a significand of 53 bits, a tie going to the
  one whose last bit is even. \<open>bit_length n\<close> is the number of binary digits of a
  positive integer; \<open>binade a\<close> is the exponent \<open>e\<close> with \<open>2 ^ e \<le> a < 2 ^ (e + 1)\<close> of a
  positive \<open>a\<close>; the numbers of that binade are the multiples of \<open>2 ^ (e - 52)\<close>. The
  exponent range is not bounded: overflow to infinity is outside the model, and below
  the normal range a sum of two doubles is a double, so that no rounding is lost there.
\<close>

function bit_length :: "int \<Rightarrow> nat" where
  "bit_length n = (if n \<le> 0 then 0 else Suc (bit_length (n div 2)))"
  by pat_completeness auto
termination
  by (relation "measure nat") auto

declare bit_length.simps [simp del]

definition round_to_even :: "real \<Rightarrow> int" where
  "round_to_even y =
     (let f = \<lfloor>y\<rfloor>; d = y - of_int f
      in if d < 1 / 2 then f else if 1 / 2 < d then f + 1 else if even f then f else f + 1)"

definition binade :: "real \<Rightarrow> int" where
  "binade a =
     (if 1 \<le> a then int (bit_length \<lfloor>a\<rfloor>) - 1
      else - int (bit_length (\<lceil>1 / a\<rceil> - 1)))"

definition pow2 :: "int \<Rightarrow> real" where
  "pow2 e = (if 0 \<le> e then 2 ^ nat e else 1 / 2 ^ nat (- e))"

definition round_double :: "real \<Rightarrow> double" where
  "round_double x =
     (if x = 0 then 0
      else let q = pow2 (binade \<bar>x\<bar> - 52) in of_int (round_to_even (x / q)) * q)"

definition dadd :: "double \<Rightarrow> double \<Rightarrow> double" where
  "dadd a b = round_double (a + b)"

subsection \<open>Exceptions and outcomes\<close>

text \<open>
  \<^verbatim>\<open>std::logic_error\<close> and \<^verbatim>\<open>std::invalid_argument\<close> carry their message;
  \<open>OutOfRange\<close> is the \<^verbatim>\<open>std::out_of_range\<close> of \<^verbatim>\<open>std::vector::at\<close>. A failed
  \<^verbatim>\<open>assert\<close> and an access outside a vector (undefined behaviour in C++) are outcomes
  of their own, so that no theorem speaks about a run that left the defined behaviour
  of the source.
\<close>

datatype exn =
    LogicError string
  | InvalidArgument string
  | OutOfRange
  | AssertionFailure
  | OutOfBounds

text \<open>
  A member function that mutates the object either returns (\<open>Done\<close>, with the object
  after the call) or throws (\<open>Threw\<close>, with the exception and the object as it is
  when the exception leaves the function).
\<close>

datatype 's outcome = Done 's | Threw exn 's

fun outcome_state :: "'s outcome \<Rightarrow> 's" where
  "outcome_state (Done s) = s"
| "outcome_state (Threw e s) = s"

text \<open>\<^verbatim>\<open>std::to_string\<close> on a non-negative integer: its decimal digits.\<close>

fun to_string :: "nat \<Rightarrow> string" where
  "to_string n =
     (if n < 10 then [char_of (48 + n)]
      else to_string (n div 10) @ [char_of (48 + n mod 10)])"

declare to_string.simps [simp del]

subsection \<open>Perforation data\<close>

text \<open>
  \<^verbatim>\<open>PerforationData\<close> is the static description of one connection handed to the well
  state: \<^verbatim>\<open>int cell_index\<close>, \<^verbatim>\<open>double connection_transmissibility_factor\<close>,
  \<^verbatim>\<open>int satnum_id\<close>.
\<close>

record PerforationData =
  pd_cell_index :: int
  pd_connection_transmissibility_factor :: double
  pd_satnum_id :: int

text \<open>
  \<^verbatim>\<open>PerfData\<close> is the dynamic per-connection state of one well, one vector entry per
  locally visible connection (\<open>phase_rates\<close> holds \<open>np\<close> entries per connection).
\<close>

record PerfData =
  cell_index :: "nat list"
  satnum_id :: "int list"
  connection_transmissibility_factor :: "double list"
  pressure :: "double list"
  rates :: "double list"
  phase_rates :: "double list"
  prod_index :: "double list"
  polymer_rates :: "double list"
  brine_rates :: "double list"
  solvent_rates :: "double list"

text \<open>
  Modelled from the spec: \<^verbatim>\<open>PerfData::size()\<close> is declared outside the sources at hand;
  the spec's data model has one record per locally visible open connection, so the size
  is the number of connection entries.
\<close>

definition perf_size :: "PerfData \<Rightarrow> nat" where
  "perf_size pd = length (cell_index pd)"

text \<open>The class invariant of \<^verbatim>\<open>PerfData\<close>: every per-connection vector has \<open>size()\<close> entries.\<close>

definition perf_data_ok :: "nat \<Rightarrow> PerfData \<Rightarrow> bool" where
  "perf_data_ok np pd \<longleftrightarrow>
     length (satnum_id pd) = perf_size pd \<and>
     length (connection_transmissibility_factor pd) = perf_size pd \<and>
     length (pressure pd) = perf_size pd \<and>
     length (rates pd) = perf_size pd \<and>
     length (phase_rates pd) = np * perf_size pd \<and>
     length (polymer_rates pd) = perf_size pd \<and>
     length (brine_rates pd) = perf_size pd \<and>
     length (solvent_rates pd) = perf_size pd"

subsection \<open>resetConnectionTransFactors\<close>

text \<open>\<^verbatim>\<open>static_cast<std::size_t>(int)\<close>: reduction modulo \<open>2^64\<close>.\<close>

definition size_t_cast :: "int \<Rightarrow> nat" where
  "size_t_cast i = nat (i mod 2 ^ 64)"

definition cell_mismatch_msg :: "nat \<Rightarrow> nat \<Rightarrow> string" where
  "cell_mismatch_msg conn_index well_index =
     ''Cell index mismatch in connection '' @ to_string conn_index
       @ '' of well '' @ to_string well_index"

definition satnum_mismatch_msg :: "nat \<Rightarrow> nat \<Rightarrow> string" where
  "satnum_mismatch_msg conn_index well_index =
     ''Saturation function table mismatch in connection '' @ to_string conn_index
       @ '' of well '' @ to_string well_index"

definition size_mismatch_msg :: "nat \<Rightarrow> string" where
  "size_mismatch_msg well_index =
     ''Size mismatch for perforation data in well '' @ to_string well_index"

text \<open>
  The body of the \<^verbatim>\<open>for\<close> loop over \<open>conn_index\<close>, started at \<open>conn_index\<close> with the
  entries of \<open>new_perf_data\<close> from there on. Each round checks the cell index, then the
  saturation table, then overwrites one transmissibility factor.
\<close>

fun reset_loop :: "nat \<Rightarrow> nat \<Rightarrow> PerforationData list \<Rightarrow> PerfData \<Rightarrow> PerfData outcome" where
  "reset_loop well_index conn_index [] perf_data = Done perf_data"
| "reset_loop well_index conn_index (n # ns) perf_data =
     (if cell_index perf_data ! conn_index \<noteq> size_t_cast (pd_cell_index n)
      then Threw (InvalidArgument (cell_mismatch_msg conn_index well_index)) perf_data
      else if satnum_id perf_data ! conn_index \<noteq> pd_satnum_id n
      then Threw (InvalidArgument (satnum_mismatch_msg conn_index well_index)) perf_data
      else reset_loop well_index (Suc conn_index) ns
             (perf_data\<lparr>connection_transmissibility_factor :=
                (connection_transmissibility_factor perf_data)
                  [conn_index := pd_connection_transmissibility_factor n]\<rparr>))"

text \<open>
  The function on the perforation data of the well at \<open>well_index\<close>. The size check
  comes first; after it every index of the loop is inside the vectors of a \<^verbatim>\<open>PerfData\<close>
  that satisfies its class invariant.
\<close>

definition resetConnectionTransFactors ::
    "nat \<Rightarrow> PerforationData list \<Rightarrow> PerfData \<Rightarrow> PerfData outcome" where
  "resetConnectionTransFactors well_index new_perf_data perf_data =
     (if perf_size perf_data \<noteq> length new_perf_data
      then Threw (InvalidArgument (size_mismatch_msg well_index)) perf_data
      else reset_loop well_index 0 new_perf_data perf_data)"

text \<open>Connection \<open>j\<close> of the new list agrees with the stored cell index and saturation table.\<close>

definition conn_matches :: "PerfData \<Rightarrow> PerforationData list \<Rightarrow> nat \<Rightarrow> bool" where
  "conn_matches perf_data new_perf_data j \<longleftrightarrow>
     cell_index perf_data ! j = size_t_cast (pd_cell_index (new_perf_data ! j)) \<and>
     satnum_id perf_data ! j = pd_satnum_id (new_perf_data ! j)"

definition mismatch_exn :: "PerfData \<Rightarrow> PerforationData list \<Rightarrow> nat \<Rightarrow> nat \<Rightarrow> exn" where
  "mismatch_exn perf_data new_perf_data well_index k =
     (if cell_index perf_data ! k \<noteq> size_t_cast (pd_cell_index (new_perf_data ! k))
      then InvalidArgument (cell_mismatch_msg k well_index)
      else InvalidArgument (satnum_mismatch_msg k well_index))"


text \<open>A well with three connections and a new perforation list whose second entry names another cell.\<close>

definition perf_data_3 :: PerfData where
  "perf_data_3 =
     \<lparr>cell_index = [5, 6, 7], satnum_id = [1, 1, 1],
      connection_transmissibility_factor = [1, 2, 3], pressure = [0, 0, 0],
      rates = [0, 0, 0], phase_rates = [0, 0, 0, 0, 0, 0], prod_index = [0, 0],
      polymer_rates = [0, 0, 0], brine_rates = [0, 0, 0], solvent_rates = [0, 0, 0]\<rparr>"

definition new_perf_data_3 :: "PerforationData list" where
  "new_perf_data_3 =
     [\<lparr>pd_cell_index = 5, pd_connection_transmissibility_factor = 10, pd_satnum_id = 1\<rparr>,
      \<lparr>pd_cell_index = 9, pd_connection_transmissibility_factor = 20, pd_satnum_id = 1\<rparr>,
      \<lparr>pd_cell_index = 7, pd_connection_transmissibility_factor = 30, pd_satnum_id = 1\<rparr>]"

subsection \<open>calculateSegmentRates\<close>

text \<open>\<^verbatim>\<open>std::vector::resize(n, v)\<close>: cut to \<open>n\<close> entries, or fill up to \<open>n\<close> entries with \<open>v\<close>.\<close>

definition resize :: "nat \<Rightarrow> 'a \<Rightarrow> 'a list \<Rightarrow> 'a list" where
  "resize n v xs = take n xs @ replicate (n - length xs) v"

text \<open>
  The inner loops over the phases \<open>p\<close>:
  \<^verbatim>\<open>segment_rates[np * segment + p] += perforation_rates[np * perf + p]\<close> and
  \<^verbatim>\<open>segment_rates[np * segment + p] += segment_rates[np * inlet_seg + p]\<close>. The second
  reads the vector it writes. Each \<^verbatim>\<open>+=\<close> is one addition of doubles.
\<close>

definition add_perforation :: "nat \<Rightarrow> nat \<Rightarrow> nat \<Rightarrow> double list \<Rightarrow> double list \<Rightarrow> double list" where
  "add_perforation np segment perf perforation_rates segment_rates =
     foldl (\<lambda>r p. r[np * segment + p :=
                     dadd (r ! (np * segment + p)) (perforation_rates ! (np * perf + p))])
       segment_rates [0..<np]"

definition add_inlet :: "nat \<Rightarrow> nat \<Rightarrow> nat \<Rightarrow> double list \<Rightarrow> double list" where
  "add_inlet np segment inlet_seg segment_rates =
     foldl (\<lambda>r p. r[np * segment + p :=
                     dadd (r ! (np * segment + p)) (r ! (np * inlet_seg + p))])
       segment_rates [0..<np]"

text \<open>
  The loop over the perforations of the segment. With \<open>np = 0\<close> the inner loop touches
  nothing; otherwise the \<open>np\<close> entries of the segment and of the perforation must exist.
\<close>

fun perforation_loop ::
    "nat \<Rightarrow> double list \<Rightarrow> nat \<Rightarrow> nat list \<Rightarrow> double list \<Rightarrow> exn + double list" where
  "perforation_loop np perforation_rates segment [] segment_rates = Inr segment_rates"
| "perforation_loop np perforation_rates segment (perf # perfs) segment_rates =
     (if np = 0 \<or> (np * segment + np \<le> length segment_rates
                    \<and> np * perf + np \<le> length perforation_rates)
      then perforation_loop np perforation_rates segment perfs
             (add_perforation np segment perf perforation_rates segment_rates)
      else Inl OutOfBounds)"

text \<open>
  The loop over the inlet segments, with the recursive call as the parameter \<open>call\<close>.
  The result \<open>None\<close> stands for a call that does not return.
\<close>

fun inlet_loop ::
    "(nat \<Rightarrow> double list \<Rightarrow> (exn + double list) option) \<Rightarrow> nat \<Rightarrow> nat \<Rightarrow> nat list
       \<Rightarrow> double list \<Rightarrow> (exn + double list) option" where
  "inlet_loop call np segment [] segment_rates = Some (Inr segment_rates)"
| "inlet_loop call np segment (inlet_seg # inlets) segment_rates =
     (case call inlet_seg segment_rates of
        None \<Rightarrow> None
      | Some (Inl e) \<Rightarrow> Some (Inl e)
      | Some (Inr segment_rates') \<Rightarrow>
          if np = 0 \<or> (np * segment + np \<le> length segment_rates'
                        \<and> np * inlet_seg + np \<le> length segment_rates')
          then inlet_loop call np segment inlets (add_inlet np segment inlet_seg segment_rates')
          else Some (Inl OutOfBounds))"

text \<open>
  The recursion of the source has no bound of its own: on a cyclic inlet relation it
  never returns. The first argument is the recursion depth still allowed; \<open>None\<close> says
  that it was not enough.
\<close>

primrec calculateSegmentRates ::
    "nat \<Rightarrow> nat list list \<Rightarrow> nat list list \<Rightarrow> double list \<Rightarrow> nat \<Rightarrow> nat \<Rightarrow> double list
       \<Rightarrow> (exn + double list) option" where
  "calculateSegmentRates 0 segment_inlets segment_perforations perforation_rates np segment
     segment_rates = None"
| "calculateSegmentRates (Suc depth) segment_inlets segment_perforations perforation_rates np segment
     segment_rates =
     (if length segment_inlets \<noteq> length segment_perforations then Some (Inl AssertionFailure)
      else if \<not> segment < length segment_perforations then Some (Inl OutOfBounds)
      else
        case perforation_loop np perforation_rates segment (segment_perforations ! segment)
               (if segment = 0 then resize (np * length segment_inlets) 0 segment_rates
                else segment_rates) of
          Inl e \<Rightarrow> Some (Inl e)
        | Inr segment_rates' \<Rightarrow>
            inlet_loop
              (calculateSegmentRates depth segment_inlets segment_perforations perforation_rates np)
              np segment (segment_inlets ! segment) segment_rates')"

text \<open>
  Well-formed aggregation input: there is a top segment, every inlet is the index of a
  segment, and every perforation index has its \<open>np\<close> rates in \<open>perforation_rates\<close>.
\<close>

definition inlets_ok :: "nat list list \<Rightarrow> bool" where
  "inlets_ok segment_inlets \<longleftrightarrow>
     segment_inlets \<noteq> [] \<and> (\<forall>l \<in> set segment_inlets. \<forall>i \<in> set l. i < length segment_inlets)"

definition perforations_ok :: "nat \<Rightarrow> nat list list \<Rightarrow> double list \<Rightarrow> bool" where
  "perforations_ok np segment_perforations perforation_rates \<longleftrightarrow>
     (\<forall>l \<in> set segment_perforations. \<forall>k \<in> set l. np * k + np \<le> length perforation_rates)"

text \<open>
  Acyclic inlet relation: \<open>no_revisit inl anc s\<close> says that no chain of inlet links that
  starts at \<open>s\<close> comes back to \<open>s\<close>, to a segment of the chain, or to one of the segments
  \<open>anc\<close> passed on the way from the top.
\<close>

inductive no_revisit :: "nat list list \<Rightarrow> nat list \<Rightarrow> nat \<Rightarrow> bool"
  for segment_inlets :: "nat list list" where
  no_revisitI:
    "s \<notin> set anc \<Longrightarrow>
     (\<And>i. i \<in> set (segment_inlets ! s) \<Longrightarrow> no_revisit segment_inlets (s # anc) i) \<Longrightarrow>
     no_revisit segment_inlets anc s"





text \<open>
  A well with three segments and two phases: segments 1 and 2 are inlets of the top
  segment; perforation 0 is on segment 1, perforations 1 and 2 on segment 2.
\<close>

definition inlets_3 :: "nat list list" where
  "inlets_3 = [[1, 2], [], []]"

definition perforations_3 :: "nat list list" where
  "perforations_3 = [[], [0], [1, 2]]"

definition perforation_rates_3 :: "double list" where
  "perforation_rates_3 = [1, 10, 2, 20, 3, 30]"




subsection \<open>Wells, controls and the single-well state\<close>

text \<open>
  The enumerations of the schedule layer, with the members the source names. The control
  modes the source does not name (they fall into its \<^verbatim>\<open>else\<close> and \<^verbatim>\<open>default\<close> branches)
  are one member each, \<open>Injector_OTHER\<close> and \<open>Producer_OTHER\<close>. The status is one of the
  three of the spec's data model, so the \<^verbatim>\<open>default\<close> branch of a switch over SHUT and STOP
  is OPEN.
\<close>

datatype Status = OPEN | STOP | SHUT

datatype InjectorCMode = Injector_RATE | Injector_BHP | Injector_THP | Injector_GRUP | Injector_OTHER

datatype ProducerCMode =
  Producer_ORAT | Producer_WRAT | Producer_GRAT | Producer_BHP | Producer_THP | Producer_GRUP
  | Producer_OTHER

datatype InjectorType = WATER | GAS | OIL | MULTI

datatype BlackoilPhases = Aqua | Liquid | Vapour

abbreviation Water :: BlackoilPhases where "Water \<equiv> Aqua"
abbreviation Oil :: BlackoilPhases where "Oil \<equiv> Liquid"
abbreviation Gas :: BlackoilPhases where "Gas \<equiv> Vapour"

record PhaseUsage =
  num_phases :: nat
  phase_used :: "BlackoilPhases \<Rightarrow> bool"
  phase_pos :: "BlackoilPhases \<Rightarrow> nat"
  has_solvent :: bool
  has_polymer :: bool
  has_brine :: bool

text \<open>
  \<^verbatim>\<open>Well::InjectionControls\<close> and \<^verbatim>\<open>Well::ProductionControls\<close>, as the well definition
  resolves them against the summary state; \<^verbatim>\<open>hasControl\<close> is the set of controls the well
  declares.
\<close>

record InjectionControls =
  inj_cmode :: InjectorCMode
  injector_type :: InjectorType
  surface_rate :: double
  inj_bhp_limit :: double
  inj_thp_limit :: double
  inj_temperature :: double
  inj_hasControl :: "InjectorCMode \<Rightarrow> bool"

record ProductionControls =
  prod_cmode :: ProducerCMode
  oil_rate :: double
  water_rate :: double
  gas_rate :: double
  prod_bhp_limit :: double
  prod_thp_limit :: double
  prod_hasControl :: "ProducerCMode \<Rightarrow> bool"

text \<open>One segment of a multi-segment well and one connection of a well, as the schedule gives them.\<close>

record Segment =
  segmentNumber :: int
  outletSegment :: int

datatype ConnectionState = Connection_OPEN | Connection_SHUT

record Connection =
  conn_state :: ConnectionState
  conn_segment :: int

text \<open>
  \<^verbatim>\<open>WellSegments\<close>: the segments in order, and \<^verbatim>\<open>segmentNumberToIndex\<close>, which is defined
  outside the sources at hand and is a component of the input here.
\<close>

record WellSegments =
  segment_list :: "Segment list"
  segmentNumberToIndex :: "int \<Rightarrow> nat"

text \<open>
  The well definition \<^verbatim>\<open>Well\<close>. The source asks \<^verbatim>\<open>isInjector()\<close> and \<^verbatim>\<open>isProducer()\<close>
  separately and compares them, so both are fields. \<open>num_open\<close> is
  \<^verbatim>\<open>getConnections().num_open()\<close>, the number of open connections of the whole well.
\<close>

record Well =
  name :: string
  isInjector :: bool
  isProducer :: bool
  getStatus :: Status
  injectionControls :: InjectionControls
  productionControls :: ProductionControls
  num_open :: nat
  isMultiSegment :: bool
  getSegments :: WellSegments
  getConnections :: "Connection list"

text \<open>
  \<^verbatim>\<open>ParallelWellInfo\<close>: the communication layer's view of one well.
  \<^verbatim>\<open>broadcastFirstPerforationValue\<close> hands every process the value of the process that
  holds the well's first perforation; it is a component of the input.
\<close>

record ParallelWellInfo =
  pw_name :: string
  isOwner :: bool
  broadcastFirstPerforationValue :: "double \<Rightarrow> double"

text \<open>The segment state of a multi-segment well (empty vectors for any other well).\<close>

record SegmentState =
  seg_rates :: "double list"
  seg_pressure :: "double list"

text \<open>
  The events recorded for a well, represented by the answer to \<^verbatim>\<open>hasEvent(mask)\<close>.
\<close>

type_synonym Events = "nat \<Rightarrow> bool"

record SingleWellState =
  ws_name :: string
  parallel_info :: ParallelWellInfo
  producer :: bool
  status :: Status
  bhp :: double
  thp :: double
  temperature :: double
  surface_rates :: "double list"
  reservoir_rates :: "double list"
  well_potentials :: "double list"
  productivity_index :: "double list"
  perf_data :: PerfData
  segments :: SegmentState
  events :: Events
  injection_cmode :: InjectorCMode
  production_cmode :: ProducerCMode

text \<open>
  Modelled from the spec: the constructors of \<^verbatim>\<open>PerfData\<close> and \<^verbatim>\<open>SingleWellState\<close> are
  not in the sources at hand. The spec creates the single-well state "with zero
  rates/pressure/potential as baseline", one perforation record per locally visible
  connection, taking cell index, transmissibility factor and saturation table from the
  perforation input. No events are recorded, the segment state is empty, and the control
  modes are the unnamed ones until \<^verbatim>\<open>init\<close> sets them.
\<close>

definition PerfData_new :: "nat \<Rightarrow> PerforationData list \<Rightarrow> PerfData" where
  "PerfData_new np perf_input =
     \<lparr>cell_index = map (\<lambda>p. size_t_cast (pd_cell_index p)) perf_input,
      satnum_id = map pd_satnum_id perf_input,
      connection_transmissibility_factor = map pd_connection_transmissibility_factor perf_input,
      pressure = replicate (length perf_input) 0,
      rates = replicate (length perf_input) 0,
      phase_rates = replicate (np * length perf_input) 0,
      prod_index = replicate (np * length perf_input) 0,
      polymer_rates = replicate (length perf_input) 0,
      brine_rates = replicate (length perf_input) 0,
      solvent_rates = replicate (length perf_input) 0\<rparr>"

definition SingleWellState_new ::
    "string \<Rightarrow> ParallelWellInfo \<Rightarrow> bool \<Rightarrow> PerforationData list \<Rightarrow> nat \<Rightarrow> double
       \<Rightarrow> SingleWellState" where
  "SingleWellState_new wname pinfo is_producer perf_input np temp =
     \<lparr>ws_name = wname, parallel_info = pinfo, producer = is_producer, status = OPEN,
      bhp = 0, thp = 0, temperature = temp,
      surface_rates = replicate np 0, reservoir_rates = replicate np 0,
      well_potentials = replicate np 0, productivity_index = replicate np 0,
      perf_data = PerfData_new np perf_input,
      segments = \<lparr>seg_rates = [], seg_pressure = []\<rparr>,
      events = (\<lambda>mask. False),
      injection_cmode = Injector_OTHER, production_cmode = Producer_OTHER\<rparr>"

text \<open>
  The well state container, as far as the functions below read or write it: the
  single-well states in the order of insertion, the per-well rates of the group-rate
  exchange in the order the map iterates, the packed artificial-lift state, and the
  phase usage.
\<close>

record WellState =
  wells :: "SingleWellState list"
  well_rates :: "(string \<times> bool \<times> double list) list"
  alq_state :: "double list"
  phase_usage :: PhaseUsage

subsection \<open>initSingleWell\<close>

definition well_kind_error :: "Well \<Rightarrow> exn" where
  "well_kind_error well =
     LogicError (''Well must be either producer or injector - logic error for well: '' @ name well)"

text \<open>
  \<^verbatim>\<open>assert(pu.phase_used[phase]); ws.surface_rates[pu.phase_pos[phase]] = value\<close>
\<close>

definition set_surface_rate ::
    "PhaseUsage \<Rightarrow> BlackoilPhases \<Rightarrow> double \<Rightarrow> SingleWellState \<Rightarrow> SingleWellState outcome" where
  "set_surface_rate pu phase v ws =
     (if \<not> phase_used pu phase then Threw AssertionFailure ws
      else if \<not> phase_pos pu phase < length (surface_rates ws) then Threw OutOfBounds ws
      else Done (ws\<lparr>surface_rates := (surface_rates ws)[phase_pos pu phase := v]\<rparr>))"

text \<open>
  The rates of an open well under its own control: the injector's switch over the
  injector type under RATE control, the producer's switch over the control mode.
\<close>

definition init_well_rates :: "PhaseUsage \<Rightarrow> Well \<Rightarrow> SingleWellState \<Rightarrow> SingleWellState outcome" where
  "init_well_rates pu well ws =
     (if isInjector well then
        (if inj_cmode (injectionControls well) = Injector_RATE then
           (case injector_type (injectionControls well) of
              WATER \<Rightarrow> set_surface_rate pu Aqua (surface_rate (injectionControls well)) ws
            | GAS \<Rightarrow> set_surface_rate pu Vapour (surface_rate (injectionControls well)) ws
            | OIL \<Rightarrow> set_surface_rate pu Liquid (surface_rate (injectionControls well)) ws
            | MULTI \<Rightarrow> Done ws)
         else Done ws)
      else
        (case prod_cmode (productionControls well) of
           Producer_ORAT \<Rightarrow> set_surface_rate pu Liquid (- oil_rate (productionControls well)) ws
         | Producer_WRAT \<Rightarrow> set_surface_rate pu Aqua (- water_rate (productionControls well)) ws
         | Producer_GRAT \<Rightarrow> set_surface_rate pu Vapour (- gas_rate (productionControls well)) ws
         | _ \<Rightarrow> Done ws))"

text \<open>
  The function after \<^verbatim>\<open>wells_.add\<close>: \<open>ws\<close> is the state just added, and the
  outcome carries it as the function leaves it.
\<close>

definition initSingleWell_added ::
    "PhaseUsage \<Rightarrow> double list \<Rightarrow> Well \<Rightarrow> ParallelWellInfo \<Rightarrow> SingleWellState
       \<Rightarrow> SingleWellState outcome" where
  "initSingleWell_added pu cellPressures well well_info ws =
     (if perf_size (perf_data ws) = 0 then Done ws
      else if \<not> cell_index (perf_data ws) ! 0 < length cellPressures then Threw OutOfBounds ws
      else
        let is_bhp = (if isInjector well then inj_cmode (injectionControls well) = Injector_BHP
                      else prod_cmode (productionControls well) = Producer_BHP);
            bhp_limit = (if isInjector well then inj_bhp_limit (injectionControls well)
                         else prod_bhp_limit (productionControls well));
            global_pressure = broadcastFirstPerforationValue well_info
                                (cellPressures ! (cell_index (perf_data ws) ! 0));
            ws1 = (if getStatus well = OPEN then ws\<lparr>status := OPEN\<rparr> else ws);
            has_thp = (if isInjector well then inj_hasControl (injectionControls well) Injector_THP
                       else prod_hasControl (productionControls well) Producer_THP);
            ws2 = (if has_thp
                   then ws1\<lparr>thp := (if isInjector well then inj_thp_limit (injectionControls well)
                                      else prod_thp_limit (productionControls well))\<rparr>
                   else ws1);
            is_grup = (if isInjector well then inj_cmode (injectionControls well) = Injector_GRUP
                       else prod_cmode (productionControls well) = Producer_GRUP);
            safety_factor = (if isInjector well then 1.01 else 0.99)
        in
          if getStatus well = STOP
          then Done (ws2\<lparr>bhp := (if is_bhp then bhp_limit else global_pressure)\<rparr>)
          else if is_grup
          then Done (ws2\<lparr>bhp := safety_factor * global_pressure\<rparr>)
          else
            case init_well_rates pu well ws2 of
              Threw e ws3 \<Rightarrow> Threw e ws3
            | Done ws3 \<Rightarrow>
                Done (ws3\<lparr>bhp := (if is_bhp then bhp_limit
                                   else safety_factor * global_pressure)\<rparr>))"

text \<open>
  \<^verbatim>\<open>initSingleWell\<close> on the container. The check of the well kind comes before
  \<^verbatim>\<open>wells_.add\<close>, which appends the new single-well state.
\<close>

definition initSingleWell ::
    "double list \<Rightarrow> Well \<Rightarrow> PerforationData list \<Rightarrow> ParallelWellInfo \<Rightarrow> WellState
       \<Rightarrow> WellState outcome" where
  "initSingleWell cellPressures well well_perf_data well_info this =
     (if isInjector well = isProducer well then Threw (well_kind_error well) this
      else
        let pu = phase_usage this;
            np = num_phases pu;
            temp = (if isInjector well then inj_temperature (injectionControls well)
                    else 273.15 + 15.56);
            ws = SingleWellState_new (name well) well_info (isProducer well) well_perf_data np temp
        in case initSingleWell_added pu cellPressures well well_info ws of
             Done ws' \<Rightarrow> Done (this\<lparr>wells := wells this @ [ws']\<rparr>)
           | Threw e ws' \<Rightarrow> Threw e (this\<lparr>wells := wells this @ [ws']\<rparr>))"

text \<open>
  The single-phase rate target in the words of the spec: an injector under rate control
  with type water, gas or oil has the surface rate as the target of that phase; a producer
  under oil, water or gas rate control has the negated rate as the target of that phase.
\<close>

definition spec_rate_target :: "Well \<Rightarrow> (BlackoilPhases \<times> double) option" where
  "spec_rate_target well =
     (if isInjector well then
        (if inj_cmode (injectionControls well) = Injector_RATE
         then (case injector_type (injectionControls well) of
                 WATER \<Rightarrow> Some (Aqua, surface_rate (injectionControls well))
               | GAS \<Rightarrow> Some (Vapour, surface_rate (injectionControls well))
               | OIL \<Rightarrow> Some (Liquid, surface_rate (injectionControls well))
               | MULTI \<Rightarrow> None)
         else None)
      else
        (case prod_cmode (productionControls well) of
           Producer_ORAT \<Rightarrow> Some (Liquid, - oil_rate (productionControls well))
         | Producer_WRAT \<Rightarrow> Some (Aqua, - water_rate (productionControls well))
         | Producer_GRAT \<Rightarrow> Some (Vapour, - gas_rate (productionControls well))
         | _ \<Rightarrow> None))"

definition under_grup :: "Well \<Rightarrow> bool" where
  "under_grup well \<longleftrightarrow>
     (if isInjector well then inj_cmode (injectionControls well) = Injector_GRUP
      else prod_cmode (productionControls well) = Producer_GRUP)"

text \<open>The broadcast pressure of the grid cell of the first connection.\<close>

definition first_connection_pressure ::
    "double list \<Rightarrow> PerforationData list \<Rightarrow> ParallelWellInfo \<Rightarrow> double" where
  "first_connection_pressure cellPressures well_perf_data well_info =
     broadcastFirstPerforationValue well_info
       (cellPressures ! size_t_cast (pd_cell_index (well_perf_data ! 0)))"

text \<open>Example data: three phases in the order water, oil, gas, and a single process.\<close>

definition pu_3 :: PhaseUsage where
  "pu_3 = \<lparr>num_phases = 3, phase_used = (\<lambda>p. True),
           phase_pos = (\<lambda>p. case p of Aqua \<Rightarrow> 0 | Liquid \<Rightarrow> 1 | Vapour \<Rightarrow> 2),
           has_solvent = False, has_polymer = False, has_brine = False\<rparr>"

definition well_info_1 :: ParallelWellInfo where
  "well_info_1 = \<lparr>pw_name = ''W1'', isOwner = True, broadcastFirstPerforationValue = (\<lambda>x. x)\<rparr>"

definition empty_state :: WellState where
  "empty_state = \<lparr>wells = [], well_rates = [], alq_state = [], phase_usage = pu_3\<rparr>"

definition inj_controls_1 :: InjectionControls where
  "inj_controls_1 =
     \<lparr>inj_cmode = Injector_GRUP, injector_type = WATER, surface_rate = 500,
      inj_bhp_limit = 30000000, inj_thp_limit = 0, inj_temperature = 300,
      inj_hasControl = (\<lambda>c. c = Injector_GRUP)\<rparr>"

definition prod_controls_1 :: ProductionControls where
  "prod_controls_1 =
     \<lparr>prod_cmode = Producer_ORAT, oil_rate = 100, water_rate = 0, gas_rate = 0,
      prod_bhp_limit = 20000000, prod_thp_limit = 0,
      prod_hasControl = (\<lambda>c. c = Producer_ORAT)\<rparr>"

definition no_segments :: WellSegments where
  "no_segments = \<lparr>segment_list = [], segmentNumberToIndex = (\<lambda>n. 0)\<rparr>"

text \<open>An open injector under group control with one connection in cell 0.\<close>

definition injector_grup :: Well where
  "injector_grup =
     \<lparr>name = ''W1'', isInjector = True, isProducer = False, getStatus = OPEN,
      injectionControls = inj_controls_1, productionControls = prod_controls_1,
      num_open = 1, isMultiSegment = False, getSegments = no_segments,
      getConnections = [\<lparr>conn_state = Connection_OPEN, conn_segment = 0\<rparr>]\<rparr>"

text \<open>An open producer under oil rate control with target 100.\<close>

definition producer_orat :: Well where
  "producer_orat = injector_grup\<lparr>isInjector := False, isProducer := True\<rparr>"

definition one_perforation :: "PerforationData list" where
  "one_perforation =
     [\<lparr>pd_cell_index = 0, pd_connection_transmissibility_factor = 1, pd_satnum_id = 1\<rparr>]"

text \<open>The same injector and producer in status STOP.\<close>

definition injector_grup_stop :: Well where
  "injector_grup_stop = injector_grup\<lparr>getStatus := STOP\<rparr>"

definition producer_orat_stop :: Well where
  "producer_orat_stop = producer_orat\<lparr>getStatus := STOP\<rparr>"

text \<open>A well definition that claims to be injector and producer at once.\<close>

definition well_both :: Well where
  "well_both = injector_grup\<lparr>isProducer := True\<rparr>"

subsection \<open>communicateGroupRates\<close>

text \<open>
  Modelled from the spec: \<^verbatim>\<open>ALQState\<close> with \<^verbatim>\<open>pack_size\<close>, \<^verbatim>\<open>pack_data\<close> and
  \<^verbatim>\<open>unpack_data\<close> is not in the sources at hand; the spec calls it "a small auxiliary
  payload packed alongside the rate vector". The field \<open>alq_state\<close> is that payload:
  \<^verbatim>\<open>pack_data\<close> writes it, \<^verbatim>\<open>unpack_data\<close> reads as many values back.

  The first loop over \<open>well_rates\<close> adds up the sizes, the second writes the rates of
  the wells this process owns and zeros for the others.
\<close>

definition pack_rates :: "(string \<times> bool \<times> double list) list \<Rightarrow> double list" where
  "pack_rates wr =
     concat (map (\<lambda>(_, owner, rate_vec). map (\<lambda>value. if owner then value else 0) rate_vec) wr)"

text \<open>The third loop: every rate is overwritten with the next value of the vector.\<close>

fun unpack_rates ::
    "double list \<Rightarrow> (string \<times> bool \<times> double list) list
       \<Rightarrow> (string \<times> bool \<times> double list) list \<times> double list" where
  "unpack_rates data [] = ([], data)"
| "unpack_rates data ((wname, owner, rate_vec) # wr) =
     (let (wr', rest) = unpack_rates (drop (length rate_vec) data) wr
      in ((wname, owner, take (length rate_vec) data) # wr', rest))"

text \<open>
  \<^verbatim>\<open>comm.sum(data.data(), data.size())\<close>, the blocking sum reduction of the
  communication layer: every process ends with the element-wise sum of the vectors of
  all processes.
\<close>

definition comm_sum :: "double list list \<Rightarrow> double list" where
  "comm_sum datas = map (\<lambda>j. \<Sum>d\<leftarrow>datas. d ! j) [0..<length (hd datas)]"

text \<open>
  The collective call: \<open>procs\<close> are the well states of the processes of the
  communicator, and the result are their well states after every one of them has run
  \<^verbatim>\<open>communicateGroupRates\<close>. A reduction over vectors of different sizes is outside the
  contract of the communication layer.
\<close>

definition communicateGroupRates :: "WellState list \<Rightarrow> exn + WellState list" where
  "communicateGroupRates procs =
     (let datas = map (\<lambda>this. pack_rates (well_rates this) @ alq_state this) procs
      in if \<exists>d \<in> set datas. length d \<noteq> length (hd datas) then Inl OutOfBounds
         else Inr (map (\<lambda>this.
                let data = comm_sum datas;
                    (wr, rest) = unpack_rates data (well_rates this)
                in this\<lparr>well_rates := wr, alq_state := take (length (alq_state this)) rest\<rparr>)
              procs))"

text \<open>Ownership flag and rate vector of the \<open>i\<close>-th entry of \<open>well_rates\<close>.\<close>

definition rates_owner :: "WellState \<Rightarrow> nat \<Rightarrow> bool" where
  "rates_owner this i = fst (snd (well_rates this ! i))"

definition rates_values :: "WellState \<Rightarrow> nat \<Rightarrow> double list" where
  "rates_values this i = snd (snd (well_rates this ! i))"

text \<open>The processes agree on the wells: entry \<open>i\<close> has \<open>shape ! i\<close> rates on every process.\<close>

definition same_shape :: "nat list \<Rightarrow> nat \<Rightarrow> WellState list \<Rightarrow> bool" where
  "same_shape shape m procs \<longleftrightarrow>
     (\<forall>this \<in> set procs. map (\<lambda>e. length (snd (snd e))) (well_rates this) = shape
                          \<and> length (alq_state this) = m)"

text \<open>Exactly one process is marked owner of entry \<open>i\<close>.\<close>

definition one_owner :: "WellState list \<Rightarrow> nat \<Rightarrow> nat \<Rightarrow> bool" where
  "one_owner procs i k \<longleftrightarrow>
     k < length procs \<and> rates_owner (procs ! k) i
     \<and> (\<forall>k'<length procs. k' \<noteq> k \<longrightarrow> \<not> rates_owner (procs ! k') i)"

text \<open>The position of entry \<open>i\<close> in the packed vector.\<close>

definition offset :: "nat list \<Rightarrow> nat \<Rightarrow> nat" where
  "offset shape i = sum_list (take i shape)"

text \<open>
  Two processes and two wells with two phases: process 0 owns well A, process 1 owns
  well B; each holds a stale copy of the other well's rates.
\<close>

definition proc_0 :: WellState where
  "proc_0 = \<lparr>wells = [], well_rates = [(''A'', True, [1, 2]), (''B'', False, [7, 7])],
             alq_state = [5], phase_usage = pu_3\<rparr>"

definition proc_1 :: WellState where
  "proc_1 = \<lparr>wells = [], well_rates = [(''A'', False, [9, 9]), (''B'', True, [3, 4])],
             alq_state = [6], phase_usage = pu_3\<rparr>"

subsection \<open>init\<close>

text \<open>
  What \<^verbatim>\<open>init\<close> reads of the schedule at the report step: the names of the wells and
  the events recorded per well.
\<close>

record Schedule =
  wellNames :: "string list"
  wellgroup_events :: "string \<rightharpoonup> Events"

text \<open>
  \<^verbatim>\<open>base_init\<close>: the container is emptied, then \<^verbatim>\<open>initSingleWell\<close> runs for every
  well with its perforation data and its parallel well info. An exception of
  \<^verbatim>\<open>initSingleWell\<close> ends the loop.
\<close>

fun base_init_loop ::
    "double list \<Rightarrow> Well list \<Rightarrow> PerforationData list list \<Rightarrow> ParallelWellInfo list
       \<Rightarrow> WellState \<Rightarrow> WellState outcome" where
  "base_init_loop cellPressures [] wpds infos this = Done this"
| "base_init_loop cellPressures (well # wells_ecl) (wpd # wpds) (info # infos) this =
     (case initSingleWell cellPressures well wpd info this of
        Threw e this' \<Rightarrow> Threw e this'
      | Done this' \<Rightarrow> base_init_loop cellPressures wells_ecl wpds infos this')"
| "base_init_loop cellPressures (well # wells_ecl) wpds infos this = Threw OutOfBounds this"

definition base_init ::
    "double list \<Rightarrow> Well list \<Rightarrow> ParallelWellInfo list \<Rightarrow> PerforationData list list
       \<Rightarrow> WellState \<Rightarrow> WellState outcome" where
  "base_init cellPressures wells_ecl parallel_well_info well_perf_data this =
     base_init_loop cellPressures wells_ecl well_perf_data parallel_well_info (this\<lparr>wells := []\<rparr>)"

text \<open>
  \<open>well_rates\<close> is a \<^verbatim>\<open>std::map\<close>: \<^verbatim>\<open>insert\<close> leaves an existing key alone, and
  \<^verbatim>\<open>well_rates[name].first = owner\<close> creates a missing entry with an empty rate vector.
  The list is kept in key order, the order in which the map iterates.
\<close>

definition well_rates_insert ::
    "string \<Rightarrow> nat \<Rightarrow> (string \<times> bool \<times> double list) list \<Rightarrow> (string \<times> bool \<times> double list) list" where
  "well_rates_insert wname np wr =
     (if wname \<in> fst ` set wr then wr else insort_key fst (wname, False, replicate np 0) wr)"

definition well_rates_set_owner ::
    "ParallelWellInfo \<Rightarrow> (string \<times> bool \<times> double list) list \<Rightarrow> (string \<times> bool \<times> double list) list" where
  "well_rates_set_owner winfo wr =
     (if pw_name winfo \<in> fst ` set wr
      then map (\<lambda>(k, owner, rate_vec). if k = pw_name winfo then (k, isOwner winfo, rate_vec)
                                        else (k, owner, rate_vec)) wr
      else insort_key fst (pw_name winfo, isOwner winfo, []) wr)"

text \<open>
  The events of the report step: \<^verbatim>\<open>this->well(wname).events = wg_events.at(wname)\<close> for
  every well of \<open>wells_ecl\<close> that has events. The container holds one state per name.
\<close>

fun set_events :: "(string \<rightharpoonup> Events) \<Rightarrow> Well list \<Rightarrow> SingleWellState list \<Rightarrow> SingleWellState list" where
  "set_events wg_events [] ws = ws"
| "set_events wg_events (ecl_well # wells_ecl) ws =
     set_events wg_events wells_ecl
       (case wg_events (name ecl_well) of
          None \<Rightarrow> ws
        | Some ev \<Rightarrow> map (\<lambda>w. if ws_name w = name ecl_well then w\<lparr>events := ev\<rparr> else w) ws)"

text \<open>
  The two nested loops that write the phase rates of the connections:
  \<^verbatim>\<open>phase_rates[np * perf + p] = surface_rates[p] / double(global_num_perf_this_well)\<close>,
  with \<open>val p\<close> for the quotient.
\<close>

definition set_perf_rates :: "nat \<Rightarrow> nat \<Rightarrow> (nat \<Rightarrow> double) \<Rightarrow> double list \<Rightarrow> double list" where
  "set_perf_rates np perf val target_rates =
     foldl (\<lambda>r p. r[np * perf + p := val p]) target_rates [0..<np]"

definition distribute_rates :: "nat \<Rightarrow> nat \<Rightarrow> (nat \<Rightarrow> double) \<Rightarrow> double list \<Rightarrow> double list" where
  "distribute_rates np num_perf val target_rates =
     foldl (\<lambda>r perf. set_perf_rates np perf val r) target_rates [0..<num_perf]"

text \<open>\<^verbatim>\<open>perf_data.pressure[perf] = cellPressures[well_perf_data[w][perf].cell_index]\<close>\<close>

definition set_pressures ::
    "double list \<Rightarrow> PerforationData list \<Rightarrow> nat \<Rightarrow> double list \<Rightarrow> double list" where
  "set_pressures cellPressures wpd num_perf perf_pressure =
     foldl (\<lambda>r perf. r[perf := cellPressures ! size_t_cast (pd_cell_index (wpd ! perf))])
       perf_pressure [0..<num_perf]"

text \<open>
  The body of the loop that initialises the connections of well \<open>w\<close>: the rates are
  written for an OPEN well only, the pressures for every well. The divisor is the
  number of open connections of the well definition.
\<close>

definition init_perf_rates ::
    "nat \<Rightarrow> double list \<Rightarrow> Well \<times> PerforationData list \<Rightarrow> SingleWellState
       \<Rightarrow> SingleWellState outcome" where
  "init_perf_rates np cellPressures ecl_wpd ws =
     (let ecl_well = fst ecl_wpd; wpd = snd ecl_wpd;
          num_perf_this_well = perf_size (perf_data ws);
          global_num_perf_this_well = num_open ecl_well
      in if (0 < num_perf_this_well \<and> getStatus ecl_well = OPEN \<and> 0 < np \<and>
               \<not> (np * num_perf_this_well \<le> length (phase_rates (perf_data ws))
                  \<and> np \<le> length (surface_rates ws)))
            \<or> \<not> num_perf_this_well \<le> length (pressure (perf_data ws))
            \<or> \<not> num_perf_this_well \<le> length wpd
            \<or> (\<exists>perf<num_perf_this_well.
                  \<not> size_t_cast (pd_cell_index (wpd ! perf)) < length cellPressures)
         then Threw OutOfBounds ws
         else Done (ws\<lparr>perf_data := (perf_data ws)
                \<lparr>phase_rates :=
                   (if getStatus ecl_well = OPEN
                    then distribute_rates np num_perf_this_well
                           (\<lambda>p. surface_rates ws ! p / real global_num_perf_this_well)
                           (phase_rates (perf_data ws))
                    else phase_rates (perf_data ws)),
                 pressure := set_pressures cellPressures wpd num_perf_this_well
                               (pressure (perf_data ws))\<rparr>\<rparr>))"

text \<open>
  A loop \<^verbatim>\<open>for (w = 0; w < nw; ++w) { auto& ws = this->well(w); ... }\<close> over the wells
  with a body that may leave the defined behaviour.
\<close>

fun well_loop ::
    "('a \<Rightarrow> SingleWellState \<Rightarrow> SingleWellState outcome) \<Rightarrow> 'a list \<Rightarrow> SingleWellState list
       \<Rightarrow> SingleWellState list outcome" where
  "well_loop body [] ws = Done ws"
| "well_loop body (e # es) [] = Threw OutOfBounds []"
| "well_loop body (e # es) (w # ws) =
     (case body e w of
        Threw x w' \<Rightarrow> Threw x (w' # ws)
      | Done w' \<Rightarrow>
          (case well_loop body es ws of
             Threw x ws' \<Rightarrow> Threw x (w' # ws')
           | Done ws' \<Rightarrow> Done (w' # ws')))"

text \<open>The control mode of the well definition goes into the state.\<close>

definition set_cmode :: "Well \<Rightarrow> SingleWellState \<Rightarrow> SingleWellState" where
  "set_cmode ecl_well ws =
     (if isProducer ecl_well
      then ws\<lparr>production_cmode := prod_cmode (productionControls ecl_well)\<rparr>
      else ws\<lparr>injection_cmode := inj_cmode (injectionControls ecl_well)\<rparr>)"

text \<open>
  Modelled from the spec: \<^verbatim>\<open>SingleWellState::shut\<close>, \<^verbatim>\<open>stop\<close> and \<^verbatim>\<open>open\<close> are not in
  the sources at hand. In the spec each transition "mutates only the status field and
  any status-dependent cached quantity (e.g., zeroing rates on transition into
  STOP/SHUT)".
\<close>

definition shut :: "SingleWellState \<Rightarrow> SingleWellState" where
  "shut ws = ws\<lparr>status := SHUT, surface_rates := replicate (length (surface_rates ws)) 0\<rparr>"

definition stop :: "SingleWellState \<Rightarrow> SingleWellState" where
  "stop ws = ws\<lparr>status := STOP, surface_rates := replicate (length (surface_rates ws)) 0\<rparr>"

definition open_well :: "SingleWellState \<Rightarrow> SingleWellState" where
  "open_well ws = ws\<lparr>status := OPEN\<rparr>"

definition apply_status :: "Well \<Rightarrow> SingleWellState \<Rightarrow> SingleWellState" where
  "apply_status ecl_well ws =
     (case getStatus ecl_well of
        SHUT \<Rightarrow> shut ws
      | STOP \<Rightarrow> stop ws
      | _ \<Rightarrow> open_well ws)"

definition well_has_thp :: "Well \<Rightarrow> bool" where
  "well_has_thp well =
     (if isInjector well then inj_hasControl (injectionControls well) Injector_THP
      else prod_hasControl (productionControls well) Producer_THP)"

text \<open>
  The body of the carry-over loop for one well. \<^verbatim>\<open>SingleWellState::init_timestep\<close> and
  \<^verbatim>\<open>PerfData::try_assign\<close> are defined outside the sources at hand and are parameters,
  as is the constant \<^verbatim>\<open>WellState::event_mask\<close>. A \<^verbatim>\<open>continue\<close> leaves the body before
  the tubing-head pressure is reset.
\<close>

definition carry_over ::
    "(SingleWellState \<Rightarrow> SingleWellState \<Rightarrow> SingleWellState) \<Rightarrow> (PerfData \<Rightarrow> PerfData \<Rightarrow> PerfData)
       \<Rightarrow> nat \<Rightarrow> nat \<Rightarrow> WellState \<Rightarrow> Well \<Rightarrow> SingleWellState \<Rightarrow> SingleWellState outcome" where
  "carry_over init_timestep try_assign event_mask np prevState well new_well =
     (if getStatus well = SHUT then Done new_well
      else
        case find (\<lambda>pw. ws_name pw = name well) (wells prevState) of
          None \<Rightarrow> Done (if \<not> well_has_thp well then new_well\<lparr>thp := 0\<rparr> else new_well)
        | Some prev_well \<Rightarrow>
            let new_well1 = init_timestep new_well prev_well
            in if status prev_well = SHUT then Done new_well1
               else if producer new_well1 \<noteq> producer prev_well then Done new_well1
               else
                 let new_well2 =
                       (if \<not> events new_well1 event_mask
                        then new_well1\<lparr>injection_cmode := injection_cmode prev_well,
                                       production_cmode := production_cmode prev_well\<rparr>
                        else new_well1);
                     new_well3 = new_well2\<lparr>surface_rates := surface_rates prev_well,
                                            reservoir_rates := reservoir_rates prev_well,
                                            well_potentials := well_potentials prev_well\<rparr>;
                     num_perf_old_well = perf_size (perf_data prev_well);
                     num_perf_this_well = perf_size (perf_data new_well3);
                     global_num_perf_this_well = num_open well
                 in if num_perf_this_well \<noteq> num_perf_old_well \<and> 0 < num_perf_this_well \<and> 0 < np
                       \<and> \<not> (np * num_perf_this_well \<le> length (phase_rates (perf_data new_well3))
                            \<and> np \<le> length (surface_rates new_well3))
                    then Threw OutOfBounds new_well3
                    else
                      let new_well4 = new_well3\<lparr>perf_data :=
                            (if num_perf_this_well = num_perf_old_well
                             then try_assign (perf_data new_well3) (perf_data prev_well)
                             else (perf_data new_well3)\<lparr>phase_rates :=
                                    distribute_rates np num_perf_this_well
                                      (\<lambda>p. surface_rates new_well3 ! p
                                             / real global_num_perf_this_well)
                                      (phase_rates (perf_data new_well3))\<rparr>)\<rparr>;
                          new_well5 = new_well4\<lparr>productivity_index := productivity_index prev_well\<rparr>
                      in Done (if \<not> well_has_thp well then new_well5\<lparr>thp := 0\<rparr> else new_well5))"

text \<open>
  \<^verbatim>\<open>init\<close>. The global well info and the default artificial-lift values that
  \<^verbatim>\<open>init\<close> also records belong to classes outside the sources at hand and are not part
  of the state modelled here; \<open>prevState\<close> is \<open>None\<close> for the null pointer.
\<close>

definition init ::
    "(SingleWellState \<Rightarrow> SingleWellState \<Rightarrow> SingleWellState) \<Rightarrow> (PerfData \<Rightarrow> PerfData \<Rightarrow> PerfData)
       \<Rightarrow> nat \<Rightarrow> double list \<Rightarrow> Schedule \<Rightarrow> Well list \<Rightarrow> ParallelWellInfo list
       \<Rightarrow> WellState option \<Rightarrow> PerforationData list list \<Rightarrow> WellState \<Rightarrow> WellState outcome" where
  "init init_timestep try_assign event_mask cellPressures schedule wells_ecl parallel_well_info
     prevState well_perf_data this =
     (case base_init cellPressures wells_ecl parallel_well_info well_perf_data this of
        Threw e this1 \<Rightarrow> Threw e this1
      | Done this1 \<Rightarrow>
          let np = num_phases (phase_usage this1);
              this2 = this1\<lparr>well_rates :=
                        foldl (\<lambda>wr winfo. well_rates_set_owner winfo wr)
                          (foldl (\<lambda>wr wname. well_rates_insert wname np wr)
                             (well_rates this1) (wellNames schedule))
                          parallel_well_info\<rparr>
          in if wells_ecl = [] then Done this2
             else
               let ws3 = set_events (wellgroup_events schedule) wells_ecl (wells this2)
               in case well_loop (init_perf_rates np cellPressures)
                         (zip wells_ecl well_perf_data) ws3 of
                    Threw e ws4 \<Rightarrow> Threw e (this2\<lparr>wells := ws4\<rparr>)
                  | Done ws4 \<Rightarrow>
                      let ws5 = map2 set_cmode wells_ecl ws4;
                          ws6 = map2 apply_status wells_ecl ws5
                      in case (case prevState of
                                 None \<Rightarrow> Done ws6
                               | Some prev \<Rightarrow>
                                   if wells prev = [] then Done ws6
                                   else well_loop
                                          (carry_over init_timestep try_assign event_mask np prev)
                                          wells_ecl ws6) of
                           Threw e ws7 \<Rightarrow> Threw e (this2\<lparr>wells := ws7\<rparr>)
                         | Done ws7 \<Rightarrow> Done (this2\<lparr>wells := ws7\<rparr>))"

text \<open>
  The frame of \<^verbatim>\<open>init_timestep\<close> that the spec's "pressure carryover" allows: it changes
  at most bhp, thp and temperature of the new state.
\<close>

definition init_timestep_frame :: "(SingleWellState \<Rightarrow> SingleWellState \<Rightarrow> SingleWellState) \<Rightarrow> bool" where
  "init_timestep_frame init_timestep \<longleftrightarrow>
     (\<forall>new_well prev_well.
        init_timestep new_well prev_well =
          new_well\<lparr>bhp := bhp (init_timestep new_well prev_well),
                   thp := thp (init_timestep new_well prev_well),
                   temperature := temperature (init_timestep new_well prev_well)\<rparr>)"

text \<open>The previous state of the well of that name, if the previous container has one.\<close>

definition prev_well_of :: "WellState option \<Rightarrow> Well \<Rightarrow> SingleWellState option" where
  "prev_well_of prevState well =
     (case prevState of
        None \<Rightarrow> None
      | Some prev \<Rightarrow> find (\<lambda>pw. ws_name pw = name well) (wells prev))"

text \<open>
  The carry-over copies for this well: the well is not SHUT, the previous container has
  it, it was not SHUT there, and it has the role it had.
\<close>

definition carries_over :: "WellState option \<Rightarrow> Well \<Rightarrow> SingleWellState \<Rightarrow> bool" where
  "carries_over prevState well prev_well \<longleftrightarrow>
     getStatus well \<noteq> SHUT \<and> prev_well_of prevState well = Some prev_well
     \<and> status prev_well \<noteq> SHUT \<and> isProducer well = producer prev_well"

text \<open>An \<^verbatim>\<open>init_timestep\<close> that carries the pressures over, and a \<^verbatim>\<open>try_assign\<close> that copies.\<close>

definition init_timestep_1 :: "SingleWellState \<Rightarrow> SingleWellState \<Rightarrow> SingleWellState" where
  "init_timestep_1 new_well prev_well = new_well\<lparr>bhp := bhp prev_well, thp := thp prev_well\<rparr>"

definition try_assign_1 :: "PerfData \<Rightarrow> PerfData \<Rightarrow> PerfData" where
  "try_assign_1 new_data prev_data = prev_data"

definition schedule_1 :: Schedule where
  "schedule_1 = \<lparr>wellNames = [''W1''], wellgroup_events = Map.empty\<rparr>"

text \<open>
  The single-well state that \<^verbatim>\<open>initSingleWell\<close> adds for a well, and the events the
  schedule has recorded for it at this step (none when the schedule has no entry).
\<close>

definition single_well_init ::
    "PhaseUsage \<Rightarrow> double list \<Rightarrow> Well \<Rightarrow> PerforationData list \<Rightarrow> ParallelWellInfo
       \<Rightarrow> SingleWellState outcome" where
  "single_well_init pu cellPressures well wpd info =
     initSingleWell_added pu cellPressures well info
       (SingleWellState_new (name well) info (isProducer well) wpd (num_phases pu)
          (if isInjector well then inj_temperature (injectionControls well)
           else 273.15 + 15.56))"

definition recorded_events :: "Schedule \<Rightarrow> Well \<Rightarrow> Events" where
  "recorded_events schedule well =
     (case wellgroup_events schedule (name well) of
        None \<Rightarrow> (\<lambda>mask. False)
      | Some ev \<Rightarrow> ev)"

text \<open>The carry-over loop as it acts on one well.\<close>

definition carry_step ::
    "(SingleWellState \<Rightarrow> SingleWellState \<Rightarrow> SingleWellState) \<Rightarrow> (PerfData \<Rightarrow> PerfData \<Rightarrow> PerfData)
       \<Rightarrow> nat \<Rightarrow> nat \<Rightarrow> WellState option \<Rightarrow> Well \<Rightarrow> SingleWellState \<Rightarrow> SingleWellState outcome" where
  "carry_step init_timestep try_assign event_mask np prevState well new_well =
     (case prevState of
        None \<Rightarrow> Done new_well
      | Some prev \<Rightarrow>
          if wells prev = [] then Done new_well
          else carry_over init_timestep try_assign event_mask np prev well new_well)"

text \<open>
  The scenario of the spec: the well had 4 connections at the last step and carried the
  oil rate -800; it has 6 connections at this step.
\<close>

definition perforations_6 :: "PerforationData list" where
  "perforations_6 =
     replicate 6 \<lparr>pd_cell_index = 0, pd_connection_transmissibility_factor = 1, pd_satnum_id = 1\<rparr>"

definition perforations_4 :: "PerforationData list" where
  "perforations_4 =
     replicate 4 \<lparr>pd_cell_index = 0, pd_connection_transmissibility_factor = 1, pd_satnum_id = 1\<rparr>"

definition producer_6 :: Well where
  "producer_6 = producer_orat\<lparr>num_open := 6\<rparr>"

definition prev_well_4 :: SingleWellState where
  "prev_well_4 =
     (SingleWellState_new ''W1'' well_info_1 True perforations_4 3 300)
       \<lparr>surface_rates := [0, - 800, 0], reservoir_rates := [0, - 900, 0],
        well_potentials := [0, 1000, 0], productivity_index := [0, 2, 0],
        production_cmode := Producer_BHP\<rparr>"

definition prev_state_4 :: WellState where
  "prev_state_4 = empty_state\<lparr>wells := [prev_well_4]\<rparr>"

definition carried_state :: WellState where
  "carried_state =
     outcome_state (init init_timestep_1 try_assign_1 1 [10000000] schedule_1 [producer_6]
                      [well_info_1] (Some prev_state_4) [perforations_6] empty_state)"

text \<open>
  A well with two open connections of which this process sees one: an open producer
  under oil rate control with target 100, initialised without a previous state.
\<close>

definition producer_2 :: Well where
  "producer_2 = producer_orat\<lparr>num_open := 2\<rparr>"

definition local_view_state :: WellState where
  "local_view_state =
     outcome_state (init init_timestep_1 try_assign_1 1 [10000000] schedule_1 [producer_2]
                      [well_info_1] None [one_perforation] empty_state)"

fun is_Done :: "'s outcome \<Rightarrow> bool" where
  "is_Done (Done s) = True"
| "is_Done (Threw e s) = False"

subsection \<open>initWellStateMSWell\<close>

text \<open>
  Modelled from the spec: the constructor \<^verbatim>\<open>SegmentState{np, segment_set}\<close> is not in
  the sources at hand. The spec's segment network state holds a pressure and \<open>np\<close> rates
  per segment; a new one is zero.
\<close>

definition SegmentState_new :: "nat \<Rightarrow> nat \<Rightarrow> SegmentState" where
  "SegmentState_new np well_nseg =
     \<lparr>seg_rates = replicate (np * well_nseg) 0, seg_pressure = replicate well_nseg 0\<rparr>"

text \<open>
  The loop over the connections: every OPEN connection is the next active perforation
  and is appended to the perforations of its segment.
\<close>

fun segment_perforations_loop ::
    "WellSegments \<Rightarrow> Connection list \<Rightarrow> nat list list \<Rightarrow> nat \<Rightarrow> exn + nat list list \<times> nat" where
  "segment_perforations_loop segment_set [] segment_perforations n_activeperf =
     Inr (segment_perforations, n_activeperf)"
| "segment_perforations_loop segment_set (connection # completion_set) segment_perforations
     n_activeperf =
     (if conn_state connection = Connection_OPEN
      then let segment_index = segmentNumberToIndex segment_set (conn_segment connection)
           in if segment_index < length segment_perforations
              then segment_perforations_loop segment_set completion_set
                     (segment_perforations
                        [segment_index := segment_perforations ! segment_index @ [n_activeperf]])
                     (Suc n_activeperf)
              else Inl OutOfBounds
      else segment_perforations_loop segment_set completion_set segment_perforations n_activeperf)"

text \<open>The loop over the segments: a segment with an outlet is an inlet of that outlet.\<close>

fun segment_inlets_loop ::
    "WellSegments \<Rightarrow> Segment list \<Rightarrow> nat list list \<Rightarrow> exn + nat list list" where
  "segment_inlets_loop segment_set [] segment_inlets = Inr segment_inlets"
| "segment_inlets_loop segment_set (segment # segs) segment_inlets =
     (if 0 < outletSegment segment
      then let segment_index = segmentNumberToIndex segment_set (segmentNumber segment);
               outlet_segment_index = segmentNumberToIndex segment_set (outletSegment segment)
           in if outlet_segment_index < length segment_inlets
              then segment_inlets_loop segment_set segs
                     (segment_inlets
                        [outlet_segment_index := segment_inlets ! outlet_segment_index @ [segment_index]])
              else Inl OutOfBounds
      else segment_inlets_loop segment_set segs segment_inlets)"

text \<open>
  \<^verbatim>\<open>perf_rates[perf*np + gaspos] *= 100\<close> for the active perforations; \<open>perf_rates\<close> is
  a reference to the phase rates of the perforation data of the well.
\<close>

definition scale_gas :: "nat \<Rightarrow> nat \<Rightarrow> nat \<Rightarrow> double list \<Rightarrow> double list" where
  "scale_gas np gaspos n_activeperf perf_rates =
     foldl (\<lambda>r perf. r[perf * np + gaspos := r ! (perf * np + gaspos) * 100]) perf_rates
       [0..<n_activeperf]"

text \<open>
  The pressures of the segments after the top one: the pressure of the first perforation
  of the segment, or the pressure of the outlet segment when the segment has none.
\<close>

fun segment_pressure_loop ::
    "WellSegments \<Rightarrow> nat list list \<Rightarrow> double list \<Rightarrow> nat list \<Rightarrow> double list
       \<Rightarrow> exn + double list" where
  "segment_pressure_loop segment_set segment_perforations perf_press [] segment_pressure =
     Inr segment_pressure"
| "segment_pressure_loop segment_set segment_perforations perf_press (seg # segs) segment_pressure =
     (if \<not> (seg < length segment_perforations \<and> seg < length segment_pressure) then Inl OutOfBounds
      else if segment_perforations ! seg \<noteq> []
      then let first_perf = segment_perforations ! seg ! 0
           in if first_perf < length perf_press
              then segment_pressure_loop segment_set segment_perforations perf_press segs
                     (segment_pressure[seg := perf_press ! first_perf])
              else Inl OutOfBounds
      else let outlet_seg = outletSegment (segment_list segment_set ! seg);
               outlet_index = segmentNumberToIndex segment_set outlet_seg
           in if outlet_index < length segment_pressure
              then segment_pressure_loop segment_set segment_perforations perf_press segs
                     (segment_pressure[seg := segment_pressure ! outlet_index])
              else Inl OutOfBounds)"

text \<open>
  The body of the first loop of \<^verbatim>\<open>initWellStateMSWell\<close> for one well. \<open>None\<close> is a
  call that does not return (the recursion of \<^verbatim>\<open>calculateSegmentRates\<close> with \<open>depth\<close>
  as the depth allowed).
\<close>

definition initWellStateMSWell_well ::
    "nat \<Rightarrow> PhaseUsage \<Rightarrow> Well \<Rightarrow> SingleWellState \<Rightarrow> SingleWellState outcome option" where
  "initWellStateMSWell_well depth pu well_ecl ws =
     (if \<not> isMultiSegment well_ecl then Some (Done ws)
      else
        let np = num_phases pu;
            segment_set = getSegments well_ecl;
            completion_set = getConnections well_ecl;
            well_nseg = length (segment_list segment_set);
            ws1 = ws\<lparr>segments := SegmentState_new np well_nseg\<rparr>
        in case segment_perforations_loop segment_set completion_set (replicate well_nseg []) 0 of
             Inl e \<Rightarrow> Some (Threw e ws1)
           | Inr (segment_perforations, n_activeperf) \<Rightarrow>
        (case segment_inlets_loop segment_set (segment_list segment_set) (replicate well_nseg []) of
             Inl e \<Rightarrow> Some (Threw e ws1)
           | Inr segment_inlets \<Rightarrow>
        (let gaspos = phase_pos pu Gas
         in if phase_used pu Gas \<and> 0 < n_activeperf
               \<and> \<not> (n_activeperf - 1) * np + gaspos < length (phase_rates (perf_data ws1))
            then Some (Threw OutOfBounds ws1)
            else
              let ws2 = (if phase_used pu Gas
                         then ws1\<lparr>perf_data := (perf_data ws1)
                                \<lparr>phase_rates := scale_gas np gaspos n_activeperf
                                                  (phase_rates (perf_data ws1))\<rparr>\<rparr>
                         else ws1);
                  perforation_rates = phase_rates (perf_data ws2)
              in case calculateSegmentRates depth segment_inlets segment_perforations
                        perforation_rates np 0 (seg_rates (segments ws2)) of
                   None \<Rightarrow> None
                 | Some (Inl e) \<Rightarrow> Some (Threw e ws2)
                 | Some (Inr segment_rates) \<Rightarrow>
                     let ws3 = ws2\<lparr>segments := (segments ws2)\<lparr>seg_rates := segment_rates\<rparr>\<rparr>
                     in if \<not> 0 < length (seg_pressure (segments ws3))
                        then Some (Threw OutOfBounds ws3)
                        else
                          case segment_pressure_loop segment_set segment_perforations
                                 (pressure (perf_data ws3)) [1..<well_nseg]
                                 ((seg_pressure (segments ws3))[0 := bhp ws3]) of
                            Inl e \<Rightarrow> Some (Threw e ws3)
                          | Inr segment_pressure \<Rightarrow>
                              Some (Done (ws3\<lparr>segments :=
                                      (segments ws3)\<lparr>seg_pressure := segment_pressure\<rparr>\<rparr>)))))"

text \<open>The loop over the wells with a body that may not return.\<close>

fun ms_well_loop ::
    "(Well \<Rightarrow> SingleWellState \<Rightarrow> SingleWellState outcome option) \<Rightarrow> Well list
       \<Rightarrow> SingleWellState list \<Rightarrow> SingleWellState list outcome option" where
  "ms_well_loop body [] ws = Some (Done ws)"
| "ms_well_loop body (e # es) [] = Some (Threw OutOfBounds [])"
| "ms_well_loop body (e # es) (w # ws) =
     (case body e w of
        None \<Rightarrow> None
      | Some (Threw x w') \<Rightarrow> Some (Threw x (w' # ws))
      | Some (Done w') \<Rightarrow>
          (case ms_well_loop body es ws of
             None \<Rightarrow> None
           | Some (Threw x ws') \<Rightarrow> Some (Threw x (w' # ws'))
           | Some (Done ws') \<Rightarrow> Some (Done (w' # ws'))))"

text \<open>The body of the second loop: the segments of the previous state are copied.\<close>

definition copy_segments :: "WellState \<Rightarrow> Well \<Rightarrow> SingleWellState \<Rightarrow> SingleWellState" where
  "copy_segments prev_well_state well ws =
     (if getStatus well = SHUT then ws
      else if \<not> isMultiSegment well then ws
      else case find (\<lambda>pw. ws_name pw = name well) (wells prev_well_state) of
             None \<Rightarrow> ws
           | Some prev_ws \<Rightarrow>
               if status prev_ws = SHUT then ws else ws\<lparr>segments := segments prev_ws\<rparr>)"

definition initWellStateMSWell ::
    "nat \<Rightarrow> Well list \<Rightarrow> WellState option \<Rightarrow> WellState \<Rightarrow> WellState outcome option" where
  "initWellStateMSWell depth wells_ecl prev_well_state this =
     (if wells_ecl = [] then Some (Done this)
      else
        case ms_well_loop (initWellStateMSWell_well depth (phase_usage this)) wells_ecl
               (wells this) of
          None \<Rightarrow> None
        | Some (Threw e ws) \<Rightarrow> Some (Threw e (this\<lparr>wells := ws\<rparr>))
        | Some (Done ws) \<Rightarrow>
            Some (Done (this\<lparr>wells :=
                    (case prev_well_state of
                       None \<Rightarrow> ws
                     | Some prev \<Rightarrow> map2 (copy_segments prev) wells_ecl ws)\<rparr>)))"

text \<open>The number of active perforations: the OPEN connections of the well definition.\<close>

definition num_active_perforations :: "Well \<Rightarrow> nat" where
  "num_active_perforations well_ecl =
     length (filter (\<lambda>c. conn_state c = Connection_OPEN) (getConnections well_ecl))"

subsection \<open>reportConnections\<close>

text \<open>
  The keys of \<^verbatim>\<open>data::Rates\<close> that \<^verbatim>\<open>reportConnections\<close> sets, and the connection
  record of the report; \<^verbatim>\<open>rates.set(key, value)\<close> stores the value under the key.
\<close>

datatype rt =
  wat | oil | gas | polymer | solvent | brine
  | productivity_index_water | productivity_index_oil | productivity_index_gas

record data_Connection =
  conn_index :: int
  conn_pressure :: double
  conn_reservoir_rate :: double
  conn_trans_factor :: double
  conn_rates :: "rt \<rightharpoonup> double"

text \<open>
  \<^verbatim>\<open>phs\<close> and \<^verbatim>\<open>pi\<close>: vectors of \<open>np\<close> keys, value-initialised (\<open>None\<close>: no key
  of the enumeration) and filled with \<^verbatim>\<open>at\<close> for the phases in use.
\<close>

definition put_at :: "'a option list \<Rightarrow> nat \<Rightarrow> 'a \<Rightarrow> exn + 'a option list" where
  "put_at xs i v = (if i < length xs then Inr (xs[i := Some v]) else Inl OutOfRange)"

definition phase_keys :: "PhaseUsage \<Rightarrow> rt \<Rightarrow> rt \<Rightarrow> rt \<Rightarrow> exn + rt option list" where
  "phase_keys pu kw ko kg =
     (case (if phase_used pu Water then put_at (replicate (num_phases pu) None) (phase_pos pu Water) kw
            else Inr (replicate (num_phases pu) None)) of
        Inl e \<Rightarrow> Inl e
      | Inr k1 \<Rightarrow>
          (case (if phase_used pu Oil then put_at k1 (phase_pos pu Oil) ko else Inr k1) of
             Inl e \<Rightarrow> Inl e
           | Inr k2 \<Rightarrow> (if phase_used pu Gas then put_at k2 (phase_pos pu Gas) kg else Inr k2)))"

text \<open>
  The rates of the connection \<open>local_comp_index\<close>: for every phase position the phase
  rate under the key of \<open>phs\<close> and the productivity index under the key of \<open>pi\<close>, then
  the polymer, brine and solvent rates of the connection.
\<close>

definition connection_rates ::
    "PhaseUsage \<Rightarrow> PerfData \<Rightarrow> rt option list \<Rightarrow> rt option list \<Rightarrow> nat \<Rightarrow> (rt \<rightharpoonup> double)
       \<Rightarrow> (rt \<rightharpoonup> double)" where
  "connection_rates pu pdata phs pis local_comp_index rates0 =
     (let np = num_phases pu;
          m1 = foldl (\<lambda>m i. (m(the (phs ! i) \<mapsto> phase_rates pdata ! (np * local_comp_index + i)))
                              (the (pis ! i) \<mapsto> prod_index pdata ! i))
                 rates0 [0..<np];
          m2 = (if has_polymer pu then m1(polymer \<mapsto> polymer_rates pdata ! local_comp_index) else m1);
          m3 = (if has_brine pu then m2(brine \<mapsto> brine_rates pdata ! local_comp_index) else m2)
      in if has_solvent pu then m3(solvent \<mapsto> solvent_rates pdata ! local_comp_index) else m3)"

text \<open>
  \<^verbatim>\<open>reportConnections\<close> for the perforation data of the well at \<open>well_index\<close>. The
  vector \<open>connections\<close> is resized (new entries are \<open>empty_connection\<close>), and every
  entry is filled. Reading outside a vector, and setting a rate under no key, leave the
  defined behaviour.
\<close>

definition empty_connection :: data_Connection where
  "empty_connection =
     \<lparr>conn_index = 0, conn_pressure = 0, conn_reservoir_rate = 0, conn_trans_factor = 0,
      conn_rates = Map.empty\<rparr>"

definition reportConnections ::
    "data_Connection list \<Rightarrow> PhaseUsage \<Rightarrow> nat \<Rightarrow> int list \<Rightarrow> WellState
       \<Rightarrow> exn + data_Connection list" where
  "reportConnections connections pu well_index globalCellIdxMap this =
     (if \<not> well_index < length (wells this) then Inl OutOfBounds
      else
        let pdata = perf_data (wells this ! well_index);
            num_perf_well = perf_size pdata;
            np = num_phases pu
        in if \<not> (num_perf_well \<le> length (pressure pdata) \<and> num_perf_well \<le> length (rates pdata)
                  \<and> num_perf_well \<le> length (connection_transmissibility_factor pdata)
                  \<and> (\<forall>i<num_perf_well. cell_index pdata ! i < length globalCellIdxMap))
           then Inl OutOfBounds
           else
             case phase_keys pu wat oil gas of
               Inl e \<Rightarrow> Inl e
             | Inr phs \<Rightarrow>
             (case phase_keys pu productivity_index_water productivity_index_oil
                     productivity_index_gas of
               Inl e \<Rightarrow> Inl e
             | Inr pis \<Rightarrow>
                 if 0 < num_perf_well \<and>
                    \<not> ((\<forall>i<np. phs ! i \<noteq> None \<and> pis ! i \<noteq> None)
                       \<and> np * num_perf_well \<le> length (phase_rates pdata)
                       \<and> np \<le> length (prod_index pdata)
                       \<and> (has_polymer pu \<longrightarrow> num_perf_well \<le> length (polymer_rates pdata))
                       \<and> (has_brine pu \<longrightarrow> num_perf_well \<le> length (brine_rates pdata))
                       \<and> (has_solvent pu \<longrightarrow> num_perf_well \<le> length (solvent_rates pdata)))
                 then Inl OutOfBounds
                 else Inr (map (\<lambda>i.
                        (resize num_perf_well empty_connection connections ! i)
                          \<lparr>conn_index := globalCellIdxMap ! (cell_index pdata ! i),
                           conn_pressure := pressure pdata ! i,
                           conn_reservoir_rate := rates pdata ! i,
                           conn_trans_factor := connection_transmissibility_factor pdata ! i,
                           conn_rates :=
                             connection_rates pu pdata phs pis i
                               (conn_rates (resize num_perf_well empty_connection connections ! i))\<rparr>)
                      [0..<num_perf_well])))"

text \<open>
  A multi-segment producer with gas: two segments, segment 2 with outlet 1, one open
  connection on segment 2. The state of the well before \<^verbatim>\<open>initWellStateMSWell\<close> holds
  the gas rate -3 on that connection.
\<close>

definition segments_2 :: WellSegments where
  "segments_2 =
     \<lparr>segment_list = [\<lparr>segmentNumber = 1, outletSegment = 0\<rparr>,
                      \<lparr>segmentNumber = 2, outletSegment = 1\<rparr>],
      segmentNumberToIndex = (\<lambda>n. nat (n - 1))\<rparr>"

definition ms_well :: Well where
  "ms_well = producer_orat\<lparr>isMultiSegment := True, getSegments := segments_2,
               getConnections := [\<lparr>conn_state = Connection_OPEN, conn_segment = 2\<rparr>]\<rparr>"

definition ms_well_state :: SingleWellState where
  "ms_well_state =
     (SingleWellState_new ''W1'' well_info_1 True one_perforation 3 300)
       \<lparr>surface_rates := [- 1, - 2, - 3],
        perf_data := (PerfData_new 3 one_perforation)\<lparr>phase_rates := [- 1, - 2, - 3]\<rparr>\<rparr>"

definition ms_state :: WellState where
  "ms_state = empty_state\<lparr>wells := [ms_well_state]\<rparr>"

definition ms_state_after :: WellState where
  "ms_state_after = outcome_state (the (initWellStateMSWell 2 [ms_well] None ms_state))"

text \<open>
  The inlet lists that \<^verbatim>\<open>initWellStateMSWell\<close> builds for a well, and the wells for
  which it stays inside its vectors: there is a top segment, the segment numbers of
  the open connections and of the outlets have an index among the segments, the
  perforation data of the well state has the rates and the pressure of every active
  perforation, the gas phase has a position among the phases, and the inlet relation
  built is acyclic.
\<close>

definition segment_inlets_of :: "Well \<Rightarrow> nat list list" where
  "segment_inlets_of well_ecl =
     (let segment_set = getSegments well_ecl
      in case segment_inlets_loop segment_set (segment_list segment_set)
                (replicate (length (segment_list segment_set)) []) of
           Inr segment_inlets \<Rightarrow> segment_inlets
         | Inl e \<Rightarrow> [])"

definition ms_well_ok :: "PhaseUsage \<Rightarrow> Well \<Rightarrow> SingleWellState \<Rightarrow> bool" where
  "ms_well_ok pu well_ecl ws \<longleftrightarrow>
     (let segment_set = getSegments well_ecl;
          well_nseg = length (segment_list segment_set);
          to_index = segmentNumberToIndex segment_set
      in 0 < well_nseg
         \<and> (\<forall>c \<in> set (getConnections well_ecl).
               conn_state c = Connection_OPEN \<longrightarrow> to_index (conn_segment c) < well_nseg)
         \<and> (\<forall>seg \<in> set (segment_list segment_set).
               0 < outletSegment seg \<longrightarrow>
                 to_index (outletSegment seg) < well_nseg
                 \<and> to_index (segmentNumber seg) < well_nseg)
         \<and> (\<forall>seg<well_nseg. 0 < seg \<longrightarrow>
               to_index (outletSegment (segment_list segment_set ! seg)) < well_nseg)
         \<and> num_phases pu * num_active_perforations well_ecl \<le> length (phase_rates (perf_data ws))
         \<and> num_active_perforations well_ecl \<le> length (pressure (perf_data ws))
         \<and> (phase_used pu Gas \<longrightarrow> phase_pos pu Gas < num_phases pu)
         \<and> no_revisit (segment_inlets_of well_ecl) [] 0)"

section \<open>Theorems\<close>

subsection \<open>resetConnectionTransFactors: the state at the exception\<close>

lemma reset_loop_frame:
  "\<exists>c. outcome_state (reset_loop wi ci ns pd) = pd\<lparr>connection_transmissibility_factor := c\<rparr>"
proof (induction ns arbitrary: ci pd)
  case Nil
  have "pd = pd\<lparr>connection_transmissibility_factor := connection_transmissibility_factor pd\<rparr>"
    by simp
  then show ?case by (metis reset_loop.simps(1) outcome_state.simps(1))
next
  case (Cons n ns)
  let ?pd' = "pd\<lparr>connection_transmissibility_factor :=
                (connection_transmissibility_factor pd)[ci := pd_connection_transmissibility_factor n]\<rparr>"
  have self: "pd = pd\<lparr>connection_transmissibility_factor := connection_transmissibility_factor pd\<rparr>"
    by simp
  from Cons.IH [of "Suc ci" ?pd'] obtain c where
    c: "outcome_state (reset_loop wi (Suc ci) ns ?pd') = ?pd'\<lparr>connection_transmissibility_factor := c\<rparr>"
    by blast
  have "?pd'\<lparr>connection_transmissibility_factor := c\<rparr> = pd\<lparr>connection_transmissibility_factor := c\<rparr>"
    by simp
  with c self show ?case
    by (cases "cell_index pd ! ci \<noteq> size_t_cast (pd_cell_index n)";
        cases "satnum_id pd ! ci \<noteq> pd_satnum_id n") (auto intro: exI [of _ c] exI [of _ "connection_transmissibility_factor pd"])
qed

lemma reset_loop_first_mismatch:
  assumes "ci + length ns \<le> length (connection_transmissibility_factor pd)"
    and "k < length ns"
    and "\<forall>j<k. cell_index pd ! (ci + j) = size_t_cast (pd_cell_index (ns ! j)) \<and>
                satnum_id pd ! (ci + j) = pd_satnum_id (ns ! j)"
    and "\<not> (cell_index pd ! (ci + k) = size_t_cast (pd_cell_index (ns ! k)) \<and>
            satnum_id pd ! (ci + k) = pd_satnum_id (ns ! k))"
  shows "reset_loop wi ci ns pd =
           Threw (if cell_index pd ! (ci + k) \<noteq> size_t_cast (pd_cell_index (ns ! k))
                  then InvalidArgument (cell_mismatch_msg (ci + k) wi)
                  else InvalidArgument (satnum_mismatch_msg (ci + k) wi))
             (pd\<lparr>connection_transmissibility_factor :=
                 take ci (connection_transmissibility_factor pd)
                   @ map pd_connection_transmissibility_factor (take k ns)
                   @ drop (ci + k) (connection_transmissibility_factor pd)\<rparr>)"
  using assms
proof (induction ns arbitrary: ci pd k)
  case Nil
  then show ?case by simp
next
  case (Cons n ns)
  show ?case
  proof (cases k)
    case 0
    with Cons.prems show ?thesis by auto
  next
    case (Suc k')
    let ?c = "connection_transmissibility_factor pd"
    let ?pd' = "pd\<lparr>connection_transmissibility_factor :=
                  ?c[ci := pd_connection_transmissibility_factor n]\<rparr>"
    from Cons.prems(3) Suc have m0: "cell_index pd ! ci = size_t_cast (pd_cell_index n)"
      "satnum_id pd ! ci = pd_satnum_id n"
      by (metis add.right_neutral nth_Cons_0 zero_less_Suc)+
    have len: "Suc ci + length ns \<le> length (connection_transmissibility_factor ?pd')"
      using Cons.prems(1) by simp
    have k': "k' < length ns" using Cons.prems(2) Suc by simp
    have pre: "\<forall>j<k'. cell_index ?pd' ! (Suc ci + j) = size_t_cast (pd_cell_index (ns ! j)) \<and>
                satnum_id ?pd' ! (Suc ci + j) = pd_satnum_id (ns ! j)"
    proof (intro allI impI)
      fix j assume "j < k'"
      then have "Suc j < k" using Suc by simp
      with Cons.prems(3) show "cell_index ?pd' ! (Suc ci + j) = size_t_cast (pd_cell_index (ns ! j)) \<and>
                satnum_id ?pd' ! (Suc ci + j) = pd_satnum_id (ns ! j)"
        by (metis PerfData.select_convs(1,2) PerfData.surjective PerfData.update_convs(3) add_Suc_shift nth_Cons_Suc)
    qed
    have mis: "\<not> (cell_index ?pd' ! (Suc ci + k') = size_t_cast (pd_cell_index (ns ! k')) \<and>
            satnum_id ?pd' ! (Suc ci + k') = pd_satnum_id (ns ! k'))"
      using Cons.prems(4) Suc by simp
    have ci: "ci < length ?c" using Cons.prems(1) by simp
    have t: "take (Suc ci) (?c[ci := pd_connection_transmissibility_factor n])
               = take ci ?c @ [pd_connection_transmissibility_factor n]"
      using ci by (simp add: take_Suc_conv_app_nth)
    have d: "drop (Suc ci + k') (?c[ci := pd_connection_transmissibility_factor n]) = drop (ci + k) ?c"
      using Suc by simp
    from Cons.IH [OF len k' pre mis, of ] m0 t d Suc show ?thesis
      by simp
  qed
qed
text \<open>
  C9. \<^verbatim>\<open>resetConnectionTransFactors\<close> is not atomic on error. When the new perforation
  list has the size of the existing one and the first connection whose cell index or
  saturation table disagrees is \<open>k\<close>, the function throws \<^verbatim>\<open>std::invalid_argument\<close> for
  connection \<open>k\<close>, and at that moment the transmissibility factors of the connections
  before \<open>k\<close> hold the new values while those from \<open>k\<close> on are the old ones. Whatever
  the outcome, the perforation data differs from the one before the call in the
  transmissibility factors only.
\<close>

theorem resetConnectionTransFactors_partial_update:
  assumes "perf_data_ok np pdata"
    and "perf_size pdata = length new_perf_data"
    and "k < length new_perf_data"
    and "\<forall>j<k. conn_matches pdata new_perf_data j"
    and "\<not> conn_matches pdata new_perf_data k"
  shows "resetConnectionTransFactors well_index new_perf_data pdata =
           Threw (mismatch_exn pdata new_perf_data well_index k)
             (pdata\<lparr>connection_transmissibility_factor :=
                 map pd_connection_transmissibility_factor (take k new_perf_data)
                   @ drop k (connection_transmissibility_factor pdata)\<rparr>)
         \<and> (\<forall>wi npd. \<exists>c. outcome_state (resetConnectionTransFactors wi npd pdata) =
                 pdata\<lparr>connection_transmissibility_factor := c\<rparr>)"
proof
  have len: "0 + length new_perf_data \<le> length (connection_transmissibility_factor pdata)"
    using assms(1,2) by (simp add: perf_data_ok_def)
  have pre: "\<forall>j<k. cell_index pdata ! (0 + j) = size_t_cast (pd_cell_index (new_perf_data ! j)) \<and>
                satnum_id pdata ! (0 + j) = pd_satnum_id (new_perf_data ! j)"
    using assms(4) by (simp add: conn_matches_def)
  have mis: "\<not> (cell_index pdata ! (0 + k) = size_t_cast (pd_cell_index (new_perf_data ! k)) \<and>
            satnum_id pdata ! (0 + k) = pd_satnum_id (new_perf_data ! k))"
    using assms(5) by (simp add: conn_matches_def)
  from reset_loop_first_mismatch [OF len assms(3) pre mis, of well_index] assms(2)
  show "resetConnectionTransFactors well_index new_perf_data pdata =
           Threw (mismatch_exn pdata new_perf_data well_index k)
             (pdata\<lparr>connection_transmissibility_factor :=
                 map pd_connection_transmissibility_factor (take k new_perf_data)
                   @ drop k (connection_transmissibility_factor pdata)\<rparr>)"
    by (simp add: resetConnectionTransFactors_def mismatch_exn_def)
next
  show "\<forall>wi npd. \<exists>c. outcome_state (resetConnectionTransFactors wi npd pdata) =
                 pdata\<lparr>connection_transmissibility_factor := c\<rparr>"
  proof (intro allI)
    fix wi npd
    have self: "pdata = pdata\<lparr>connection_transmissibility_factor :=
                  connection_transmissibility_factor pdata\<rparr>"
      by simp
    show "\<exists>c. outcome_state (resetConnectionTransFactors wi npd pdata) =
                 pdata\<lparr>connection_transmissibility_factor := c\<rparr>"
    proof (cases "perf_size pdata \<noteq> length npd")
      case True
      then have "outcome_state (resetConnectionTransFactors wi npd pdata) = pdata"
        by (simp add: resetConnectionTransFactors_def)
      with self show ?thesis by metis
    next
      case False
      then show ?thesis
        using reset_loop_frame [of wi 0 npd pdata]
        by (simp add: resetConnectionTransFactors_def)
    qed
  qed
qed

theorem resetConnectionTransFactors_partial_update_witness:
  "resetConnectionTransFactors 0 new_perf_data_3 perf_data_3 =
     Threw (InvalidArgument ''Cell index mismatch in connection 1 of well 0'')
       (perf_data_3\<lparr>connection_transmissibility_factor := [10, 2, 3]\<rparr>)"
proof -
  have ok: "perf_data_ok 2 perf_data_3"
    by (simp add: perf_data_ok_def perf_size_def perf_data_3_def)
  have sz: "perf_size perf_data_3 = length new_perf_data_3"
    by (simp add: perf_size_def perf_data_3_def new_perf_data_3_def)
  have k: "(1::nat) < length new_perf_data_3"
    by (simp add: new_perf_data_3_def)
  have pre: "\<forall>j<(1::nat). conn_matches perf_data_3 new_perf_data_3 j"
    by (simp add: conn_matches_def perf_data_3_def new_perf_data_3_def size_t_cast_def)
  have mis: "\<not> conn_matches perf_data_3 new_perf_data_3 1"
    by (simp add: conn_matches_def perf_data_3_def new_perf_data_3_def size_t_cast_def)
  have s1: "to_string (Suc 0) = ''1''" and s0: "to_string 0 = ''0''"
    by code_simp+
  from resetConnectionTransFactors_partial_update [OF ok sz k pre mis, of 0]
  show ?thesis
    by (simp add: mismatch_exn_def cell_mismatch_msg_def s1 s0 perf_data_3_def
        new_perf_data_3_def size_t_cast_def)
qed
subsection \<open>calculateSegmentRates: vector operations\<close>

lemma length_resize [simp]: "length (resize n v xs) = n"
  by (simp add: resize_def)

lemma resize_same_length: "length xs = n \<Longrightarrow> resize n v xs = xs"
  by (simp add: resize_def)

lemma resize_idem: "resize n v (resize n v xs) = resize n v xs"
  by (simp add: resize_same_length)


lemma length_foldl_update:
  "length (foldl (\<lambda>r p. r[g p := h r p]) xs ps) = length xs"
  by (induction ps arbitrary: xs) simp_all

lemma length_add_perforation [simp]:
  "length (add_perforation np s k pr sr) = length sr"
  unfolding add_perforation_def by (rule length_foldl_update)

lemma length_add_inlet [simp]: "length (add_inlet np s i sr) = length sr"
  unfolding add_inlet_def by (rule length_foldl_update)

lemma length_perforation_loop:
  "perforation_loop np pr s ks sr = Inr r \<Longrightarrow> length r = length sr"
  by (induction ks arbitrary: sr) (auto split: if_splits)

lemma perforation_loop_in_bounds:
  assumes "\<forall>k \<in> set ks. np * k + np \<le> length pr" and "np * s + np \<le> length sr"
  shows "\<exists>r. perforation_loop np pr s ks sr = Inr r"
  using assms by (induction ks arbitrary: sr) simp_all

subsection \<open>calculateSegmentRates: more depth changes nothing\<close>

lemma inlet_loop_mono:
  assumes "\<And>i sr x. call i sr = Some x \<Longrightarrow> call' i sr = Some x"
    and "inlet_loop call np s is sr = Some y"
  shows "inlet_loop call' np s is sr = Some y"
  using assms(2)
proof (induction "is" arbitrary: sr)
  case Nil
  then show ?case by simp
next
  case (Cons i "is")
  from Cons.prems obtain x where x: "call i sr = Some x"
    by (cases "call i sr") auto
  then have x': "call' i sr = Some x" by (rule assms(1))
  show ?case
  proof (cases x)
    case (Inl e)
    have "inlet_loop call np s (i # is) sr = Some (Inl e)" using x Inl by simp
    moreover have "inlet_loop call' np s (i # is) sr = Some (Inl e)" using x' Inl by simp
    ultimately show ?thesis using Cons.prems by simp
  next
    case (Inr sr')
    show ?thesis
    proof (cases "np = 0 \<or> (np * s + np \<le> length sr' \<and> np * i + np \<le> length sr')")
      case True
      then have "inlet_loop call np s (i # is) sr = inlet_loop call np s is (add_inlet np s i sr')"
        using x Inr by simp
      with Cons.prems have "inlet_loop call' np s is (add_inlet np s i sr') = Some y"
        using Cons.IH by simp
      then show ?thesis using x' Inr True by simp
    next
      case False
      then have "inlet_loop call np s (i # is) sr = Some (Inl OutOfBounds)"
        using x Inr by auto
      moreover have "inlet_loop call' np s (i # is) sr = Some (Inl OutOfBounds)"
        using x' Inr False by auto
      ultimately show ?thesis using Cons.prems by simp
    qed
  qed
qed

lemma calculateSegmentRates_Suc_depth:
  "calculateSegmentRates d inl perfs pr np s sr = Some x \<Longrightarrow>
   calculateSegmentRates (Suc d) inl perfs pr np s sr = Some x"
proof (induction d arbitrary: s sr x)
  case 0
  then show ?case by simp
next
  case (Suc d)
  have step: "\<And>i sr x. calculateSegmentRates d inl perfs pr np i sr = Some x \<Longrightarrow>
                calculateSegmentRates (Suc d) inl perfs pr np i sr = Some x"
    by (rule Suc.IH)
  show ?case
    apply (subst calculateSegmentRates.simps(2))
    using Suc.prems
    apply (subst (asm) calculateSegmentRates.simps(2))
    by (auto split: if_splits sum.splits intro: inlet_loop_mono [OF step]
        simp del: calculateSegmentRates.simps)
qed

lemma calculateSegmentRates_more_depth:
  "calculateSegmentRates d inl perfs pr np s sr = Some x \<Longrightarrow>
   calculateSegmentRates (d + k) inl perfs pr np s sr = Some x"
  by (induction k) (simp_all add: calculateSegmentRates_Suc_depth del: calculateSegmentRates.simps)

lemma calculateSegmentRates_depth_le:
  "calculateSegmentRates d inl perfs pr np s sr = Some x \<Longrightarrow> d \<le> d' \<Longrightarrow>
   calculateSegmentRates d' inl perfs pr np s sr = Some x"
  using calculateSegmentRates_more_depth [of d inl perfs pr np s sr x "d' - d"] by simp

subsection \<open>calculateSegmentRates: termination on an acyclic inlet relation\<close>

lemma inlet_loop_returns:
  assumes "\<forall>i \<in> set is. \<forall>sr. call i sr \<noteq> None"
  shows "inlet_loop call np s is sr \<noteq> None"
  using assms
proof (induction "is" arbitrary: sr)
  case Nil
  then show ?case by simp
next
  case (Cons i "is")
  then obtain x where x: "call i sr = Some x" by fastforce
  show ?case
  proof (cases x)
    case (Inl e)
    with x show ?thesis by simp
  next
    case (Inr sr')
    with x Cons show ?thesis by simp
  qed
qed

lemma common_depth:
  assumes "\<forall>i \<in> set is. \<exists>d. \<forall>sr. calculateSegmentRates d inl perfs pr np i sr \<noteq> None"
  shows "\<exists>d. \<forall>i \<in> set is. \<forall>sr. calculateSegmentRates d inl perfs pr np i sr \<noteq> None"
  using assms
proof (induction "is")
  case Nil
  then show ?case by simp
next
  case (Cons i "is")
  then obtain d1 where d1: "\<forall>j \<in> set is. \<forall>sr. calculateSegmentRates d1 inl perfs pr np j sr \<noteq> None"
    by auto
  from Cons.prems obtain d2 where d2: "\<forall>sr. calculateSegmentRates d2 inl perfs pr np i sr \<noteq> None"
    by auto
  have "\<forall>j \<in> set (i # is). \<forall>sr. calculateSegmentRates (max d1 d2) inl perfs pr np j sr \<noteq> None"
  proof (intro ballI allI)
    fix j sr assume j: "j \<in> set (i # is)"
    show "calculateSegmentRates (max d1 d2) inl perfs pr np j sr \<noteq> None"
    proof (cases "j = i")
      case True
      from d2 obtain x where "calculateSegmentRates d2 inl perfs pr np i sr = Some x" by auto
      from calculateSegmentRates_depth_le [OF this, of "max d1 d2"] True show ?thesis by simp
    next
      case False
      with j have "j \<in> set is" by simp
      with d1 obtain x where "calculateSegmentRates d1 inl perfs pr np j sr = Some x" by auto
      from calculateSegmentRates_depth_le [OF this, of "max d1 d2"] show ?thesis by simp
    qed
  qed
  then show ?case by blast
qed

lemma no_revisit_returns:
  "no_revisit inl anc s \<Longrightarrow> \<exists>d. \<forall>sr. calculateSegmentRates d inl perfs pr np s sr \<noteq> None"
proof (induction rule: no_revisit.induct)
  case (no_revisitI s anc)
  then have "\<forall>i \<in> set (inl ! s). \<exists>d. \<forall>sr. calculateSegmentRates d inl perfs pr np i sr \<noteq> None"
    by blast
  from common_depth [OF this] obtain d where
    d: "\<forall>i \<in> set (inl ! s). \<forall>sr. calculateSegmentRates d inl perfs pr np i sr \<noteq> None" ..
  have "\<forall>sr. calculateSegmentRates (Suc d) inl perfs pr np s sr \<noteq> None"
    using inlet_loop_returns [OF d]
    by (auto split: sum.splits)
  then show ?case ..
qed

subsection \<open>calculateSegmentRates: no error on well-formed input\<close>

lemma inlet_loop_no_error:
  assumes call: "\<And>i sr res. i \<in> set is \<Longrightarrow> length sr = N \<Longrightarrow> call i sr = Some res \<Longrightarrow>
                   \<exists>r. res = Inr r \<and> length r = N"
    and "\<forall>i \<in> set is. np * i + np \<le> N" and "np * s + np \<le> N"
    and "length sr = N" and "inlet_loop call np s is sr = Some res"
  shows "\<exists>r. res = Inr r \<and> length r = N"
  using assms
proof (induction "is" arbitrary: sr)
  case Nil
  then show ?case by auto
next
  case (Cons i "is")
  from Cons.prems(5) obtain x where x: "call i sr = Some x"
    by (cases "call i sr") auto
  from Cons.prems(1) [OF _ Cons.prems(4) x] obtain sr' where
    sr': "x = Inr sr'" "length sr' = N" by auto
  have rest: "inlet_loop call np s is (add_inlet np s i sr') = Some res"
    using Cons.prems(2,3,5) x sr' by (auto split: if_splits)
  show ?case
  proof (rule Cons.IH [OF _ _ Cons.prems(3) _ rest])
    fix j sr0 res0
    assume "j \<in> set is" "length sr0 = N" "call j sr0 = Some res0"
    then show "\<exists>r. res0 = Inr r \<and> length r = N"
      using Cons.prems(1) [of j sr0 res0] by simp
  next
    show "\<forall>i \<in> set is. np * i + np \<le> N" using Cons.prems(2) by simp
  next
    show "length (add_inlet np s i sr') = N" using sr' by simp
  qed
qed

lemma segment_in_bounds: "s < n \<Longrightarrow> np * s + np \<le> np * (n::nat)"
proof -
  assume "s < n"
  then have "Suc s \<le> n" by simp
  then have "np * Suc s \<le> np * n" by (rule mult_le_mono2)
  then show ?thesis by simp
qed

lemma calculateSegmentRates_no_error:
  assumes "inlets_ok inl" and "length perfs = length inl" and "perforations_ok np perfs pr"
  shows "s < length inl \<Longrightarrow> length sr = np * length inl \<Longrightarrow>
         calculateSegmentRates d inl perfs pr np s sr = Some res \<Longrightarrow>
         \<exists>r. res = Inr r \<and> length r = np * length inl"
proof (induction d arbitrary: s sr res)
  case 0
  then show ?case by simp
next
  case (Suc d)
  let ?N = "np * length inl"
  have sb: "np * s + np \<le> ?N" using Suc.prems(1) by (rule segment_in_bounds)
  have pk: "\<forall>k \<in> set (perfs ! s). np * k + np \<le> length pr"
  proof -
    have "perfs ! s \<in> set perfs" using assms(2) Suc.prems(1) by simp
    with assms(3) show ?thesis unfolding perforations_ok_def by blast
  qed
  have rs: "(if s = 0 then resize ?N 0 sr else sr) = sr"
    using Suc.prems(2) by (simp add: resize_same_length)
  from perforation_loop_in_bounds [OF pk, of s sr] sb Suc.prems(2) obtain sr2 where
    sr2: "perforation_loop np pr s (perfs ! s) sr = Inr sr2" by auto
  then have l2: "length sr2 = ?N" using length_perforation_loop Suc.prems(2) by metis
  have loop: "inlet_loop (calculateSegmentRates d inl perfs pr np) np s (inl ! s) sr2 = Some res"
    using Suc.prems(1,3) assms(2) sr2 rs by simp
  have inl_s: "\<forall>i \<in> set (inl ! s). i < length inl"
  proof -
    have "inl ! s \<in> set inl" using Suc.prems(1) by simp
    with assms(1) show ?thesis unfolding inlets_ok_def by blast
  qed
  show ?case
  proof (rule inlet_loop_no_error [OF _ _ sb l2 loop])
    show "\<And>i sr res. i \<in> set (inl ! s) \<Longrightarrow> length sr = ?N \<Longrightarrow>
            calculateSegmentRates d inl perfs pr np i sr = Some res \<Longrightarrow>
            \<exists>r. res = Inr r \<and> length r = ?N"
      using Suc.IH inl_s by blast
    show "\<forall>i \<in> set (inl ! s). np * i + np \<le> ?N"
      using inl_s segment_in_bounds by blast
  qed
qed

lemma calculateSegmentRates_top_resize:
  "calculateSegmentRates d inl perfs pr np 0 (resize (np * length inl) 0 sr) =
   calculateSegmentRates d inl perfs pr np 0 sr"
  by (cases d) (simp_all add: resize_idem)
text \<open>
  C10. On an acyclic inlet relation (no chain of inlet links from the top segment 0
  comes back to a segment it has passed) the recursion of \<^verbatim>\<open>calculateSegmentRates\<close>
  returns: some recursion depth is enough. On well-formed input it returns a vector
  of \<open>np\<close> times the number of segments entries. The call at segment 0 resizes the
  output vector first: it computes what it computes from the resized vector.
\<close>

theorem calculateSegmentRates_terminates:
  assumes "no_revisit segment_inlets [] 0"
  shows "(\<exists>depth. calculateSegmentRates depth segment_inlets segment_perforations
                     perforation_rates np 0 segment_rates \<noteq> None)
       \<and> (inlets_ok segment_inlets \<and> length segment_perforations = length segment_inlets
            \<and> perforations_ok np segment_perforations perforation_rates \<longrightarrow>
          (\<exists>depth r. calculateSegmentRates depth segment_inlets segment_perforations
                        perforation_rates np 0 segment_rates = Some (Inr r)
                      \<and> length r = np * length segment_inlets))
       \<and> (\<forall>depth. calculateSegmentRates depth segment_inlets segment_perforations
                     perforation_rates np 0 segment_rates =
                   calculateSegmentRates depth segment_inlets segment_perforations
                     perforation_rates np 0 (resize (np * length segment_inlets) 0 segment_rates))"
proof (intro conjI impI allI)
  from no_revisit_returns [OF assms] obtain d where
    d: "\<forall>sr. calculateSegmentRates d segment_inlets segment_perforations perforation_rates np 0 sr \<noteq> None"
    by blast
  then show "\<exists>depth. calculateSegmentRates depth segment_inlets segment_perforations
                     perforation_rates np 0 segment_rates \<noteq> None"
    by blast
  let ?sr = "resize (np * length segment_inlets) 0 segment_rates"
  assume wf: "inlets_ok segment_inlets \<and> length segment_perforations = length segment_inlets
            \<and> perforations_ok np segment_perforations perforation_rates"
  from d obtain res where
    res: "calculateSegmentRates d segment_inlets segment_perforations perforation_rates np 0 ?sr
            = Some res"
    by blast
  have top: "0 < length segment_inlets" using wf by (simp add: inlets_ok_def)
  from calculateSegmentRates_no_error [OF _ _ _ top _ res] wf obtain r where
    "res = Inr r" "length r = np * length segment_inlets"
    by auto
  with res calculateSegmentRates_top_resize [of d segment_inlets segment_perforations
      perforation_rates np segment_rates]
  show "\<exists>depth r. calculateSegmentRates depth segment_inlets segment_perforations
                        perforation_rates np 0 segment_rates = Some (Inr r)
                      \<and> length r = np * length segment_inlets"
    by auto
next
  fix depth
  show "calculateSegmentRates depth segment_inlets segment_perforations
                     perforation_rates np 0 segment_rates =
                   calculateSegmentRates depth segment_inlets segment_perforations
                     perforation_rates np 0 (resize (np * length segment_inlets) 0 segment_rates)"
    by (simp only: calculateSegmentRates_top_resize)
qed

theorem calculateSegmentRates_terminates_witness:
  "\<exists>depth r. calculateSegmentRates depth inlets_3 perforations_3 perforation_rates_3 2 0 []
                = Some (Inr r) \<and> length r = 6"
proof -
  have leaf1: "no_revisit inlets_3 [0] 1"
    by (rule no_revisitI) (simp_all add: inlets_3_def)
  have leaf2: "no_revisit inlets_3 [0] 2"
    by (rule no_revisitI) (simp_all add: inlets_3_def)
  have top: "no_revisit inlets_3 [] 0"
  proof (rule no_revisitI)
    show "0 \<notin> set []" by simp
  next
    fix i assume "i \<in> set (inlets_3 ! 0)"
    then have "i = 1 \<or> i = 2" by (simp add: inlets_3_def)
    then show "no_revisit inlets_3 [0] i" using leaf1 leaf2 by auto
  qed
  have wf: "inlets_ok inlets_3 \<and> length perforations_3 = length inlets_3
            \<and> perforations_ok 2 perforations_3 perforation_rates_3"
    by (simp add: inlets_ok_def perforations_ok_def inlets_3_def perforations_3_def
        perforation_rates_3_def)
  from calculateSegmentRates_terminates [OF top, of perforations_3 perforation_rates_3 2 "[]"] wf
  have "\<exists>depth r. calculateSegmentRates depth inlets_3 perforations_3 perforation_rates_3 2 0 []
                = Some (Inr r) \<and> length r = 2 * length inlets_3"
    by blast
  moreover have "2 * length inlets_3 = 6" by (simp add: inlets_3_def)
  ultimately show ?thesis by simp
qed
subsection \<open>calculateSegmentRates: what the loops add\<close>

lemma block_index:
  assumes "q < np"
  shows "(np * s \<le> np * t + q \<and> np * t + q < np * s + np) \<longleftrightarrow> t = (s::nat)"
proof
  assume a: "np * s \<le> np * t + q \<and> np * t + q < np * s + np"
  show "t = s"
  proof (rule ccontr)
    assume "t \<noteq> s"
    then consider "t < s" | "s < t" by linarith
    then show False
    proof cases
      case 1
      then have "np * Suc t \<le> np * s" by (intro mult_le_mono2) simp
      with a assms show False by simp
    next
      case 2
      then have "np * Suc s \<le> np * t" by (intro mult_le_mono2) simp
      with a show False by simp
    qed
  qed
next
  assume "t = s"
  with assms show "np * s \<le> np * t + q \<and> np * t + q < np * s + np" by simp
qed





subsection \<open>calculateSegmentRates: tree-shaped inlet relations\<close>







lemma sum_list_map_eq:
  "(\<And>x. x \<in> set xs \<Longrightarrow> f x = g x) \<Longrightarrow> (\<Sum>x\<leftarrow>xs. f x) = (\<Sum>x\<leftarrow>xs. (g x :: real))"
  by (induction xs) simp_all



subsection \<open>Additions of doubles that do not round\<close>




















subsection \<open>initSingleWell\<close>

lemma set_surface_rate_exn:
  "set_surface_rate pu ph v ws = Threw e ws' \<Longrightarrow> e = AssertionFailure \<or> e = OutOfBounds"
  by (auto simp add: set_surface_rate_def split: if_splits)

lemma init_well_rates_exn:
  "init_well_rates pu well ws = Threw e ws' \<Longrightarrow> e = AssertionFailure \<or> e = OutOfBounds"
  by (auto simp add: init_well_rates_def split: if_splits InjectorType.splits ProducerCMode.splits
      dest: set_surface_rate_exn)

lemma initSingleWell_added_exn:
  "initSingleWell_added pu cp well wi ws = Threw e ws' \<Longrightarrow> e = AssertionFailure \<or> e = OutOfBounds"
  by (auto simp add: initSingleWell_added_def Let_def split: if_splits outcome.splits
      dest: init_well_rates_exn)

text \<open>
  C8. A well definition that is neither injector nor producer, or both, makes
  \<^verbatim>\<open>initSingleWell\<close> throw \<^verbatim>\<open>std::logic_error\<close> with a message that ends in the name of
  the well, and the container is as it was before the call. For a well that is exactly
  one of the two, no \<^verbatim>\<open>std::logic_error\<close> leaves the function.
\<close>

theorem initSingleWell_kind_check:
  "(isInjector well = isProducer well \<longrightarrow>
      initSingleWell cellPressures well well_perf_data well_info this =
        Threw (LogicError (''Well must be either producer or injector - logic error for well: ''
                 @ name well)) this)
   \<and> (isInjector well \<noteq> isProducer well \<longrightarrow>
        (\<forall>msg s. initSingleWell cellPressures well well_perf_data well_info this
                    \<noteq> Threw (LogicError msg) s))"
proof (intro conjI impI allI)
  assume "isInjector well = isProducer well"
  then show "initSingleWell cellPressures well well_perf_data well_info this =
        Threw (LogicError (''Well must be either producer or injector - logic error for well: ''
                 @ name well)) this"
    by (simp add: initSingleWell_def well_kind_error_def)
next
  fix msg s
  assume k: "isInjector well \<noteq> isProducer well"
  show "initSingleWell cellPressures well well_perf_data well_info this \<noteq> Threw (LogicError msg) s"
  proof
    assume "initSingleWell cellPressures well well_perf_data well_info this = Threw (LogicError msg) s"
    with k obtain ws ws' where
      "initSingleWell_added (phase_usage this) cellPressures well well_info ws
         = Threw (LogicError msg) ws'"
      by (auto simp add: initSingleWell_def Let_def split: outcome.splits)
    from initSingleWell_added_exn [OF this] show False by simp
  qed
qed

theorem initSingleWell_kind_check_witness:
  "initSingleWell [10000000] well_both one_perforation well_info_1 empty_state =
     Threw (LogicError ''Well must be either producer or injector - logic error for well: W1'')
       empty_state
   \<and> initSingleWell [10000000] injector_grup one_perforation well_info_1 empty_state
        \<noteq> Threw (LogicError ''Well must be either producer or injector - logic error for well: W1'')
             empty_state"
proof -
  have both: "isInjector well_both = isProducer well_both"
    by (simp add: well_both_def injector_grup_def)
  have one: "isInjector injector_grup \<noteq> isProducer injector_grup"
    by (simp add: injector_grup_def)
  have n: "name well_both = ''W1''" by (simp add: well_both_def injector_grup_def)
  from initSingleWell_kind_check [of well_both "[10000000]" one_perforation well_info_1 empty_state]
    both n
  have a: "initSingleWell [10000000] well_both one_perforation well_info_1 empty_state =
     Threw (LogicError ''Well must be either producer or injector - logic error for well: W1'')
       empty_state"
    by simp
  from initSingleWell_kind_check [of injector_grup "[10000000]" one_perforation well_info_1
      empty_state] one
  have b: "initSingleWell [10000000] injector_grup one_perforation well_info_1 empty_state
        \<noteq> Threw (LogicError ''Well must be either producer or injector - logic error for well: W1'')
             empty_state"
    by blast
  from a b show ?thesis by blast
qed
lemma first_cell_index:
  "well_perf_data \<noteq> [] \<Longrightarrow>
   cell_index (PerfData_new np well_perf_data) ! 0 = size_t_cast (pd_cell_index (well_perf_data ! 0))"
  by (cases well_perf_data) (simp_all add: PerfData_new_def)

lemma perf_size_new [simp]: "perf_size (PerfData_new np well_perf_data) = length well_perf_data"
  by (simp add: perf_size_def PerfData_new_def)

lemma set_surface_rate_ok:
  "phase_used pu ph \<Longrightarrow> phase_pos pu ph < length (surface_rates ws) \<Longrightarrow>
   set_surface_rate pu ph v ws = Done (ws\<lparr>surface_rates := (surface_rates ws)[phase_pos pu ph := v]\<rparr>)"
  by (simp add: set_surface_rate_def)

lemma init_well_rates_target:
  assumes "\<forall>ph v. spec_rate_target well = Some (ph, v) \<longrightarrow>
             phase_used pu ph \<and> phase_pos pu ph < length (surface_rates ws)"
  shows "init_well_rates pu well ws =
           Done (ws\<lparr>surface_rates :=
                   (case spec_rate_target well of
                      None \<Rightarrow> surface_rates ws
                    | Some (ph, v) \<Rightarrow> (surface_rates ws)[phase_pos pu ph := v])\<rparr>)"
proof (cases "isInjector well")
  case True
  show ?thesis
  proof (cases "inj_cmode (injectionControls well) = Injector_RATE")
    case False
    with True show ?thesis by (simp add: init_well_rates_def spec_rate_target_def)
  next
    case rate: True
    show ?thesis
    proof (cases "injector_type (injectionControls well)")
      case WATER
      with True rate have t: "spec_rate_target well = Some (Aqua, surface_rate (injectionControls well))"
        by (simp add: spec_rate_target_def)
      with assms have "phase_used pu Aqua" "phase_pos pu Aqua < length (surface_rates ws)" by blast+
      from set_surface_rate_ok [OF this] True rate WATER t show ?thesis
        by (simp add: init_well_rates_def)
    next
      case GAS
      with True rate have t: "spec_rate_target well = Some (Vapour, surface_rate (injectionControls well))"
        by (simp add: spec_rate_target_def)
      with assms have "phase_used pu Vapour" "phase_pos pu Vapour < length (surface_rates ws)" by blast+
      from set_surface_rate_ok [OF this] True rate GAS t show ?thesis
        by (simp add: init_well_rates_def)
    next
      case OIL
      with True rate have t: "spec_rate_target well = Some (Liquid, surface_rate (injectionControls well))"
        by (simp add: spec_rate_target_def)
      with assms have "phase_used pu Liquid" "phase_pos pu Liquid < length (surface_rates ws)" by blast+
      from set_surface_rate_ok [OF this] True rate OIL t show ?thesis
        by (simp add: init_well_rates_def)
    next
      case MULTI
      with True rate show ?thesis by (simp add: init_well_rates_def spec_rate_target_def)
    qed
  qed
next
  case False
  show ?thesis
  proof (cases "prod_cmode (productionControls well)")
    case Producer_ORAT
    with False have t: "spec_rate_target well = Some (Liquid, - oil_rate (productionControls well))"
      by (simp add: spec_rate_target_def)
    with assms have "phase_used pu Liquid" "phase_pos pu Liquid < length (surface_rates ws)" by blast+
    from set_surface_rate_ok [OF this] False Producer_ORAT t show ?thesis
      by (simp add: init_well_rates_def)
  next
    case Producer_WRAT
    with False have t: "spec_rate_target well = Some (Aqua, - water_rate (productionControls well))"
      by (simp add: spec_rate_target_def)
    with assms have "phase_used pu Aqua" "phase_pos pu Aqua < length (surface_rates ws)" by blast+
    from set_surface_rate_ok [OF this] False Producer_WRAT t show ?thesis
      by (simp add: init_well_rates_def)
  next
    case Producer_GRAT
    with False have t: "spec_rate_target well = Some (Vapour, - gas_rate (productionControls well))"
      by (simp add: spec_rate_target_def)
    with assms have "phase_used pu Vapour" "phase_pos pu Vapour < length (surface_rates ws)" by blast+
    from set_surface_rate_ok [OF this] False Producer_GRAT t show ?thesis
      by (simp add: init_well_rates_def)
  next
    case Producer_BHP
    with False show ?thesis by (simp add: init_well_rates_def spec_rate_target_def)
  next
    case Producer_THP
    with False show ?thesis by (simp add: init_well_rates_def spec_rate_target_def)
  next
    case Producer_GRUP
    with False show ?thesis by (simp add: init_well_rates_def spec_rate_target_def)
  next
    case Producer_OTHER
    with False show ?thesis by (simp add: init_well_rates_def spec_rate_target_def)
  qed
qed

lemma initSingleWell_added_result:
  assumes "well_perf_data \<noteq> []"
    and "size_t_cast (pd_cell_index (well_perf_data ! 0)) < length cellPressures"
    and "\<forall>ph v. spec_rate_target well = Some (ph, v) \<longrightarrow>
           phase_used pu ph \<and> phase_pos pu ph < np"
  shows "\<exists>ws. initSingleWell_added pu cellPressures well well_info
                 (SingleWellState_new wname well_info is_prod well_perf_data np temp) = Done ws
          \<and> surface_rates ws =
               (if getStatus well = STOP \<or> under_grup well then replicate np 0
                else case spec_rate_target well of
                       None \<Rightarrow> replicate np 0
                     | Some (ph, v) \<Rightarrow> (replicate np 0)[phase_pos pu ph := v])
          \<and> (under_grup well \<longrightarrow>
               bhp ws = (if getStatus well = STOP then 1
                         else if isInjector well then 1.01 else 0.99)
                        * first_connection_pressure cellPressures well_perf_data well_info)"
proof -
  let ?ws = "SingleWellState_new wname well_info is_prod well_perf_data np temp"
  define gp where "gp = first_connection_pressure cellPressures well_perf_data well_info"
  define is_bhp where
    "is_bhp = (if isInjector well then inj_cmode (injectionControls well) = Injector_BHP
               else prod_cmode (productionControls well) = Producer_BHP)"
  define bhp_limit where
    "bhp_limit = (if isInjector well then inj_bhp_limit (injectionControls well)
                  else prod_bhp_limit (productionControls well))"
  define factor :: real where "factor = (if isInjector well then 1.01 else 0.99)"
  define ws2 where
    "ws2 = (if (if isInjector well then inj_hasControl (injectionControls well) Injector_THP
                else prod_hasControl (productionControls well) Producer_THP)
            then (if getStatus well = OPEN then ?ws\<lparr>status := OPEN\<rparr> else ?ws)
                   \<lparr>thp := (if isInjector well then inj_thp_limit (injectionControls well)
                            else prod_thp_limit (productionControls well))\<rparr>
            else (if getStatus well = OPEN then ?ws\<lparr>status := OPEN\<rparr> else ?ws))"
  have sz: "perf_size (perf_data ?ws) \<noteq> 0" using assms(1) by (simp add: SingleWellState_new_def)
  have ci: "cell_index (perf_data ?ws) ! 0 = size_t_cast (pd_cell_index (well_perf_data ! 0))"
    using first_cell_index [OF assms(1)] by (simp add: SingleWellState_new_def)
  have unfold: "initSingleWell_added pu cellPressures well well_info ?ws =
     (if getStatus well = STOP then Done (ws2\<lparr>bhp := (if is_bhp then bhp_limit else gp)\<rparr>)
      else if under_grup well then Done (ws2\<lparr>bhp := factor * gp\<rparr>)
      else case init_well_rates pu well ws2 of
             Threw e ws3 \<Rightarrow> Threw e ws3
           | Done ws3 \<Rightarrow> Done (ws3\<lparr>bhp := (if is_bhp then bhp_limit else factor * gp)\<rparr>))"
    unfolding initSingleWell_added_def Let_def ws2_def gp_def is_bhp_def bhp_limit_def factor_def
      under_grup_def first_connection_pressure_def
    using sz ci assms(2) by (simp only: if_False if_True not_not refl not_True_eq_False)
  have sr2: "surface_rates ws2 = replicate np 0"
    by (simp add: ws2_def SingleWellState_new_def)
  have grup_bhp: "under_grup well \<Longrightarrow> \<not> is_bhp"
    by (auto simp add: under_grup_def is_bhp_def split: if_splits)
  have grup_target: "under_grup well \<Longrightarrow> spec_rate_target well = None"
    by (auto simp add: under_grup_def spec_rate_target_def split: if_splits)
  have pre: "\<forall>ph v. spec_rate_target well = Some (ph, v) \<longrightarrow>
             phase_used pu ph \<and> phase_pos pu ph < length (surface_rates ws2)"
    using assms(3) sr2 by simp
  note r = init_well_rates_target [OF pre]
  consider (stop) "getStatus well = STOP" | (grup) "getStatus well \<noteq> STOP" "under_grup well"
    | (own) "getStatus well \<noteq> STOP" "\<not> under_grup well" by blast
  then show ?thesis
  proof cases
    case stop
    then have "initSingleWell_added pu cellPressures well well_info ?ws
                 = Done (ws2\<lparr>bhp := (if is_bhp then bhp_limit else gp)\<rparr>)"
      by (simp add: unfold)
    then show ?thesis using stop sr2 grup_bhp
      by (intro exI [of _ "ws2\<lparr>bhp := (if is_bhp then bhp_limit else gp)\<rparr>"])
         (simp add: gp_def)
  next
    case grup
    then have "initSingleWell_added pu cellPressures well well_info ?ws
                 = Done (ws2\<lparr>bhp := factor * gp\<rparr>)"
      by (simp add: unfold)
    then show ?thesis using grup sr2
      by (intro exI [of _ "ws2\<lparr>bhp := factor * gp\<rparr>"]) (simp add: gp_def factor_def)
  next
    case own
    then have "initSingleWell_added pu cellPressures well well_info ?ws
                 = Done (ws2\<lparr>surface_rates :=
                           (case spec_rate_target well of
                              None \<Rightarrow> surface_rates ws2
                            | Some (ph, v) \<Rightarrow> (surface_rates ws2)[phase_pos pu ph := v]),
                         bhp := (if is_bhp then bhp_limit else factor * gp)\<rparr>)"
      by (simp add: unfold r)
    then show ?thesis using own sr2
      by (intro exI [of _ "ws2\<lparr>surface_rates :=
                           (case spec_rate_target well of
                              None \<Rightarrow> surface_rates ws2
                            | Some (ph, v) \<Rightarrow> (surface_rates ws2)[phase_pos pu ph := v]),
                         bhp := (if is_bhp then bhp_limit else factor * gp)\<rparr>"])
         (simp split: option.splits)
  qed
qed
lemma under_grup_no_target: "under_grup well \<Longrightarrow> spec_rate_target well = None"
proof (cases "isInjector well")
  case True
  assume "under_grup well"
  with True show ?thesis by (simp add: under_grup_def spec_rate_target_def)
next
  case False
  assume "under_grup well"
  with False show ?thesis by (simp add: under_grup_def spec_rate_target_def)
qed

lemma initSingleWell_added_no_connection:
  "initSingleWell_added pu cellPressures well well_info
     (SingleWellState_new wname well_info is_prod [] np temp)
   = Done (SingleWellState_new wname well_info is_prod [] np temp)"
  by (simp add: initSingleWell_added_def SingleWellState_new_def)

lemma initSingleWell_Done:
  assumes "isInjector well \<noteq> isProducer well"
    and "initSingleWell_added (phase_usage this) cellPressures well well_info
           (SingleWellState_new (name well) well_info (isProducer well) well_perf_data
              (num_phases (phase_usage this))
              (if isInjector well then inj_temperature (injectionControls well)
               else 273.15 + 15.56)) = Done ws"
  shows "initSingleWell cellPressures well well_perf_data well_info this =
           Done (this\<lparr>wells := wells this @ [ws]\<rparr>)"
  using assms by (simp add: initSingleWell_def Let_def)

text \<open>
  C4, as the code has it. A well under group control with at least one locally visible
  connection leaves \<^verbatim>\<open>initSingleWell\<close> with all surface rates zero; its bhp is the
  broadcast pressure of the first connection's cell times 1.01 (injector) or 0.99
  (producer), unless the status of the well is STOP: the branch for stopped wells comes
  first and sets the bhp to the broadcast pressure itself.
\<close>

theorem initSingleWell_grup:
  assumes "isInjector well \<noteq> isProducer well"
    and "under_grup well"
    and "well_perf_data \<noteq> []"
    and "size_t_cast (pd_cell_index (well_perf_data ! 0)) < length cellPressures"
  shows "\<exists>ws. initSingleWell cellPressures well well_perf_data well_info this =
                 Done (this\<lparr>wells := wells this @ [ws]\<rparr>)
          \<and> surface_rates ws = replicate (num_phases (phase_usage this)) 0
          \<and> bhp ws = (if getStatus well = STOP then 1
                       else if isInjector well then 1.01 else 0.99)
                      * first_connection_pressure cellPressures well_perf_data well_info"
proof -
  have no: "\<forall>ph v. spec_rate_target well = Some (ph, v) \<longrightarrow>
              phase_used (phase_usage this) ph
              \<and> phase_pos (phase_usage this) ph < num_phases (phase_usage this)"
    using under_grup_no_target [OF assms(2)] by simp
  from initSingleWell_added_result [OF assms(3,4) no, of well_info "name well" "isProducer well"
      "if isInjector well then inj_temperature (injectionControls well) else 273.15 + 15.56"]
  obtain ws where
    a: "initSingleWell_added (phase_usage this) cellPressures well well_info
           (SingleWellState_new (name well) well_info (isProducer well) well_perf_data
              (num_phases (phase_usage this))
              (if isInjector well then inj_temperature (injectionControls well)
               else 273.15 + 15.56)) = Done ws"
    and r: "surface_rates ws =
               (if getStatus well = STOP \<or> under_grup well
                then replicate (num_phases (phase_usage this)) 0
                else case spec_rate_target well of
                       None \<Rightarrow> replicate (num_phases (phase_usage this)) 0
                     | Some (ph, v) \<Rightarrow>
                         (replicate (num_phases (phase_usage this)) 0)
                           [phase_pos (phase_usage this) ph := v])"
    and b: "under_grup well \<longrightarrow>
               bhp ws = (if getStatus well = STOP then 1
                         else if isInjector well then 1.01 else 0.99)
                        * first_connection_pressure cellPressures well_perf_data well_info"
    by blast
  have r': "surface_rates ws = replicate (num_phases (phase_usage this)) 0"
    using r assms(2) by simp
  have b': "bhp ws = (if getStatus well = STOP then 1
                       else if isInjector well then 1.01 else 0.99)
                      * first_connection_pressure cellPressures well_perf_data well_info"
    using b assms(2) by blast
  show ?thesis
    by (intro exI [of _ ws] conjI) (rule initSingleWell_Done [OF assms(1) a], fact r', fact b')
qed

theorem initSingleWell_grup_witness:
  "\<exists>ws. initSingleWell [10000000] injector_grup one_perforation well_info_1 empty_state =
          Done (empty_state\<lparr>wells := [ws]\<rparr>)
        \<and> surface_rates ws = [0, 0, 0] \<and> bhp ws = 10100000"
proof -
  have k: "isInjector injector_grup \<noteq> isProducer injector_grup"
    by (simp add: injector_grup_def)
  have g: "under_grup injector_grup"
    by (simp add: under_grup_def injector_grup_def inj_controls_1_def)
  have p: "one_perforation \<noteq> []" by (simp add: one_perforation_def)
  have c: "size_t_cast (pd_cell_index (one_perforation ! 0)) < length [10000000::real]"
    by (simp add: one_perforation_def size_t_cast_def)
  have fp: "first_connection_pressure [10000000] one_perforation well_info_1 = 10000000"
    by (simp add: first_connection_pressure_def one_perforation_def size_t_cast_def
        well_info_1_def)
  have st: "getStatus injector_grup = OPEN" "isInjector injector_grup"
    by (simp_all add: injector_grup_def)
  have np: "replicate (num_phases (phase_usage empty_state)) (0::real) = [0, 0, 0]"
    by (simp add: empty_state_def pu_3_def numeral_3_eq_3)
  have w: "wells empty_state @ [ws] = [ws]" for ws by (simp add: empty_state_def)
  from initSingleWell_grup [OF k g p c, of well_info_1 empty_state]
  show ?thesis by (simp add: fp st np w)
qed

text \<open>
  Counterexample to C4 as stated, a stopped well: an injector under GRUP in status STOP, one
  connection at cell pressure 100e5, gets bhp 100e5 and not 1.01 times that.
\<close>

theorem initSingleWell_grup_counterexample:
  "under_grup injector_grup_stop \<and> isInjector injector_grup_stop \<and> one_perforation \<noteq> []
   \<and> bhp (last (wells (outcome_state
        (initSingleWell [10000000] injector_grup_stop one_perforation well_info_1 empty_state))))
       = 10000000
   \<and> 1.01 * first_connection_pressure [10000000] one_perforation well_info_1 = 10100000"
  by (simp add: under_grup_def injector_grup_stop_def injector_grup_def inj_controls_1_def
      one_perforation_def initSingleWell_def initSingleWell_added_def Let_def
      SingleWellState_new_def PerfData_new_def perf_size_def size_t_cast_def well_info_1_def
      empty_state_def pu_3_def first_connection_pressure_def)

text \<open>
  C5, as the code has it. For a well that is exactly one of injector and producer, is
  not in status STOP and has at least one locally visible connection, \<^verbatim>\<open>initSingleWell\<close>
  sets the surface rate of the phase of a single-phase rate target to the signed target
  and leaves every other rate zero; with any other control mode all rates are zero.
  A stopped well and a well without locally visible connection keep all rates zero
  whatever their control mode.
\<close>

theorem initSingleWell_rate_target:
  assumes "isInjector well \<noteq> isProducer well"
    and "well_perf_data \<noteq> [] \<longrightarrow>
           size_t_cast (pd_cell_index (well_perf_data ! 0)) < length cellPressures"
    and "\<forall>ph v. spec_rate_target well = Some (ph, v) \<longrightarrow>
           phase_used (phase_usage this) ph
           \<and> phase_pos (phase_usage this) ph < num_phases (phase_usage this)"
  shows "\<exists>ws. initSingleWell cellPressures well well_perf_data well_info this =
                 Done (this\<lparr>wells := wells this @ [ws]\<rparr>)
          \<and> surface_rates ws =
               (if well_perf_data = [] \<or> getStatus well = STOP
                then replicate (num_phases (phase_usage this)) 0
                else case spec_rate_target well of
                       None \<Rightarrow> replicate (num_phases (phase_usage this)) 0
                     | Some (ph, v) \<Rightarrow>
                         (replicate (num_phases (phase_usage this)) 0)
                           [phase_pos (phase_usage this) ph := v])"
proof (cases "well_perf_data = []")
  case True
  let ?ws = "SingleWellState_new (name well) well_info (isProducer well) []
              (num_phases (phase_usage this))
              (if isInjector well then inj_temperature (injectionControls well)
               else 273.15 + 15.56)"
  have a: "initSingleWell cellPressures well well_perf_data well_info this =
             Done (this\<lparr>wells := wells this @ [?ws]\<rparr>)"
    unfolding True by (rule initSingleWell_Done [OF assms(1) initSingleWell_added_no_connection])
  have r: "surface_rates ?ws = replicate (num_phases (phase_usage this)) 0"
    by (simp add: SingleWellState_new_def)
  from a r True show ?thesis by (intro exI [of _ ?ws]) simp
next
  case False
  with assms(2) have c: "size_t_cast (pd_cell_index (well_perf_data ! 0)) < length cellPressures"
    by simp
  from initSingleWell_added_result [OF False c assms(3), of well_info "name well" "isProducer well"
      "if isInjector well then inj_temperature (injectionControls well) else 273.15 + 15.56"]
  obtain ws where
    a: "initSingleWell_added (phase_usage this) cellPressures well well_info
           (SingleWellState_new (name well) well_info (isProducer well) well_perf_data
              (num_phases (phase_usage this))
              (if isInjector well then inj_temperature (injectionControls well)
               else 273.15 + 15.56)) = Done ws"
    and r: "surface_rates ws =
               (if getStatus well = STOP \<or> under_grup well
                then replicate (num_phases (phase_usage this)) 0
                else case spec_rate_target well of
                       None \<Rightarrow> replicate (num_phases (phase_usage this)) 0
                     | Some (ph, v) \<Rightarrow>
                         (replicate (num_phases (phase_usage this)) 0)
                           [phase_pos (phase_usage this) ph := v])"
    by blast
  have r': "surface_rates ws =
               (if well_perf_data = [] \<or> getStatus well = STOP
                then replicate (num_phases (phase_usage this)) 0
                else case spec_rate_target well of
                       None \<Rightarrow> replicate (num_phases (phase_usage this)) 0
                     | Some (ph, v) \<Rightarrow>
                         (replicate (num_phases (phase_usage this)) 0)
                           [phase_pos (phase_usage this) ph := v])"
  proof (cases "under_grup well")
    case True
    from under_grup_no_target [OF True] r True False show ?thesis by simp
  next
    case g: False
    with r False show ?thesis by simp
  qed
  show ?thesis
    by (intro exI [of _ ws] conjI) (rule initSingleWell_Done [OF assms(1) a], fact r')
qed

theorem initSingleWell_rate_target_witness:
  "\<exists>ws. initSingleWell [10000000] producer_orat one_perforation well_info_1 empty_state =
          Done (empty_state\<lparr>wells := [ws]\<rparr>)
        \<and> surface_rates ws = [0, - 100, 0]"
proof -
  have k: "isInjector producer_orat \<noteq> isProducer producer_orat"
    by (simp add: producer_orat_def injector_grup_def)
  have p: "one_perforation \<noteq> []" by (simp add: one_perforation_def)
  have c: "one_perforation \<noteq> [] \<longrightarrow>
             size_t_cast (pd_cell_index (one_perforation ! 0)) < length [10000000::real]"
    by (simp add: one_perforation_def size_t_cast_def)
  have t: "spec_rate_target producer_orat = Some (Liquid, - 100)"
    by (simp add: spec_rate_target_def producer_orat_def injector_grup_def prod_controls_1_def)
  have ph: "\<forall>ph v. spec_rate_target producer_orat = Some (ph, v) \<longrightarrow>
           phase_used (phase_usage empty_state) ph
           \<and> phase_pos (phase_usage empty_state) ph < num_phases (phase_usage empty_state)"
    by (simp add: t empty_state_def pu_3_def)
  have st: "getStatus producer_orat = OPEN"
    by (simp add: producer_orat_def injector_grup_def)
  have np: "(replicate (num_phases (phase_usage empty_state)) (0::real))
              [phase_pos (phase_usage empty_state) Liquid := - 100] = [0, - 100, 0]"
    by (simp add: empty_state_def pu_3_def numeral_3_eq_3)
  have w: "wells empty_state @ [ws] = [ws]" for ws by (simp add: empty_state_def)
  from initSingleWell_rate_target [OF k c ph, of well_info_1]
  show ?thesis by (simp add: p st t np w)
qed

text \<open>
  Counterexample to C5 as stated, a stopped well: a producer in status STOP under oil rate
  control with target 100 leaves \<^verbatim>\<open>initSingleWell\<close> with oil rate 0, not -100.
\<close>

theorem initSingleWell_rate_target_counterexample:
  "spec_rate_target producer_orat_stop = Some (Liquid, - 100)
   \<and> surface_rates (last (wells (outcome_state
        (initSingleWell [10000000] producer_orat_stop one_perforation well_info_1 empty_state))))
       ! phase_pos pu_3 Liquid = 0"
  by (simp add: spec_rate_target_def producer_orat_stop_def producer_orat_def injector_grup_def
      prod_controls_1_def one_perforation_def initSingleWell_def initSingleWell_added_def Let_def
      SingleWellState_new_def PerfData_new_def perf_size_def size_t_cast_def well_info_1_def
      empty_state_def pu_3_def numeral_3_eq_3)
subsection \<open>communicateGroupRates\<close>

lemma offset_0 [simp]: "offset shape 0 = 0"
  by (simp add: offset_def)

lemma offset_Cons_Suc [simp]: "offset (l # ls) (Suc i) = l + offset ls i"
  by (simp add: offset_def)

lemma offset_length: "offset shape (length shape) = sum_list shape"
  by (simp add: offset_def)

lemma offset_in_bounds: "i < length shape \<Longrightarrow> offset shape i + shape ! i \<le> sum_list shape"
proof (induction shape arbitrary: i)
  case Nil
  then show ?case by simp
next
  case (Cons l ls)
  show ?case
  proof (cases i)
    case 0
    then show ?thesis by simp
  next
    case (Suc i')
    with Cons.prems have "i' < length ls" by simp
    from Cons.IH [OF this] Suc show ?thesis by simp
  qed
qed

lemma length_pack_rates:
  "length (pack_rates wr) = sum_list (map (\<lambda>e. length (snd (snd e))) wr)"
  by (induction wr) (auto simp add: pack_rates_def)

lemma pack_rates_Cons:
  "pack_rates (e # wr) =
     map (\<lambda>value. if fst (snd e) then value else 0) (snd (snd e)) @ pack_rates wr"
  by (cases e) (auto simp add: pack_rates_def)

lemma pack_nth:
  "i < length wr \<Longrightarrow> q < length (snd (snd (wr ! i))) \<Longrightarrow>
   (pack_rates wr @ alq) ! (offset (map (\<lambda>e. length (snd (snd e))) wr) i + q) =
     (if fst (snd (wr ! i)) then snd (snd (wr ! i)) ! q else 0)"
proof (induction wr arbitrary: i)
  case Nil
  then show ?case by simp
next
  case (Cons e wr)
  show ?case
  proof (cases i)
    case 0
    with Cons.prems show ?thesis by (simp add: pack_rates_Cons nth_append)
  next
    case (Suc i')
    with Cons.prems have i': "i' < length wr" and q: "q < length (snd (snd (wr ! i')))" by simp_all
    from Cons.IH [OF i' q] Suc show ?thesis
      by (simp add: pack_rates_Cons nth_append add.assoc)
  qed
qed

lemma pack_alq_nth:
  "(pack_rates wr @ alq) ! (sum_list (map (\<lambda>e. length (snd (snd e))) wr) + q) = alq ! q"
  using nth_append_length_plus [of "pack_rates wr" alq q] by (simp add: length_pack_rates)

lemma unpack_rates_length: "length (fst (unpack_rates data wr)) = length wr"
  by (induction data wr rule: unpack_rates.induct) (simp_all add: case_prod_beta)

lemma unpack_rates_rest:
  "snd (unpack_rates data wr) = drop (sum_list (map (\<lambda>e. length (snd (snd e))) wr)) data"
  by (induction data wr rule: unpack_rates.induct) (simp_all add: case_prod_beta add.commute)

lemma unpack_rates_nth:
  "i < length wr \<Longrightarrow>
   fst (unpack_rates data wr) ! i =
     (fst (wr ! i), fst (snd (wr ! i)),
      take (length (snd (snd (wr ! i))))
        (drop (offset (map (\<lambda>e. length (snd (snd e))) wr) i) data))"
proof (induction data wr arbitrary: i rule: unpack_rates.induct)
  case (1 data)
  then show ?case by simp
next
  case (2 data wname owner rate_vec wr)
  show ?case
  proof (cases i)
    case 0
    then show ?thesis by (simp add: case_prod_beta)
  next
    case (Suc i')
    with "2.prems" have "i' < length wr" by simp
    from "2.IH" [OF this] Suc show ?thesis
      by (simp add: case_prod_beta add.commute)
  qed
qed

lemma sum_list_all_zero: "(\<forall>x \<in> set xs. f x = (0::real)) \<Longrightarrow> sum_list (map f xs) = 0"
  by (induction xs) simp_all

lemma sum_list_single:
  assumes "k < length xs" and "\<forall>k'<length xs. k' \<noteq> k \<longrightarrow> f (xs ! k') = (0::real)"
  shows "sum_list (map f xs) = f (xs ! k)"
proof -
  have split: "xs = take k xs @ xs ! k # drop (Suc k) xs"
    using assms(1) by (rule id_take_nth_drop)
  have before: "\<forall>x \<in> set (take k xs). f x = 0"
  proof
    fix x assume "x \<in> set (take k xs)"
    then obtain j where j: "j < length (take k xs)" "take k xs ! j = x"
      by (auto simp add: in_set_conv_nth)
    then have "j < k" "j < length xs" "xs ! j = x" using assms(1) by simp_all
    with assms(2) show "f x = 0" by auto
  qed
  have after: "\<forall>x \<in> set (drop (Suc k) xs). f x = 0"
  proof
    fix x assume "x \<in> set (drop (Suc k) xs)"
    then obtain j where j: "j < length (drop (Suc k) xs)" "drop (Suc k) xs ! j = x"
      by (auto simp add: in_set_conv_nth)
    then have "Suc k + j < length xs" "xs ! (Suc k + j) = x" "Suc k + j \<noteq> k" by simp_all
    with assms(2) show "f x = 0" by blast
  qed
  have "sum_list (map f xs) =
          sum_list (map f (take k xs)) + (f (xs ! k) + sum_list (map f (drop (Suc k) xs)))"
    by (subst split) simp
  with sum_list_all_zero [OF before] sum_list_all_zero [OF after] show ?thesis by simp
qed

lemma comm_sum_nth:
  "j < length (hd datas) \<Longrightarrow> comm_sum datas ! j = (\<Sum>d\<leftarrow>datas. d ! j)"
  by (simp add: comm_sum_def)

lemma length_comm_sum [simp]: "length (comm_sum datas) = length (hd datas)"
  by (simp add: comm_sum_def)
lemma communicateGroupRates_result:
  assumes shape: "same_shape shape m procs" and ne: "procs \<noteq> []"
  shows "communicateGroupRates procs =
           Inr (map (\<lambda>this.
                  this\<lparr>well_rates :=
                         fst (unpack_rates
                                (comm_sum (map (\<lambda>this. pack_rates (well_rates this) @ alq_state this) procs))
                                (well_rates this)),
                       alq_state :=
                         take m (drop (sum_list shape)
                                (comm_sum (map (\<lambda>this. pack_rates (well_rates this) @ alq_state this) procs)))\<rparr>)
                procs)"
proof -
  let ?pack = "\<lambda>this. pack_rates (well_rates this) @ alq_state this"
  have len: "\<And>this. this \<in> set procs \<Longrightarrow> length (?pack this) = sum_list shape + m"
    using shape by (auto simp add: same_shape_def length_pack_rates)
  have hd: "hd procs \<in> set procs" using ne by simp
  have guard: "\<not> (\<exists>d \<in> set (map ?pack procs). length d \<noteq> length (hd (map ?pack procs)))"
    using len hd ne by (auto simp add: hd_map)
  have each: "\<And>this. this \<in> set procs \<Longrightarrow>
     (let data = comm_sum (map ?pack procs);
          (wr, rest) = unpack_rates data (well_rates this)
      in this\<lparr>well_rates := wr, alq_state := take (length (alq_state this)) rest\<rparr>)
     = this\<lparr>well_rates := fst (unpack_rates (comm_sum (map ?pack procs)) (well_rates this)),
            alq_state := take m (drop (sum_list shape) (comm_sum (map ?pack procs)))\<rparr>"
  proof -
    fix this assume t: "this \<in> set procs"
    then have "map (\<lambda>e. length (snd (snd e))) (well_rates this) = shape"
      and "length (alq_state this) = m"
      using shape by (auto simp add: same_shape_def)
    then show "(let data = comm_sum (map ?pack procs);
          (wr, rest) = unpack_rates data (well_rates this)
      in this\<lparr>well_rates := wr, alq_state := take (length (alq_state this)) rest\<rparr>)
     = this\<lparr>well_rates := fst (unpack_rates (comm_sum (map ?pack procs)) (well_rates this)),
            alq_state := take m (drop (sum_list shape) (comm_sum (map ?pack procs)))\<rparr>"
      by (simp add: Let_def case_prod_beta unpack_rates_rest)
  qed
  have "communicateGroupRates procs =
          Inr (map (\<lambda>this.
                let data = comm_sum (map ?pack procs);
                    (wr, rest) = unpack_rates data (well_rates this)
                in this\<lparr>well_rates := wr, alq_state := take (length (alq_state this)) rest\<rparr>)
              procs)"
    using guard unfolding communicateGroupRates_def Let_def by (simp only: if_False)
  also have "\<dots> = Inr (map (\<lambda>this.
                  this\<lparr>well_rates := fst (unpack_rates (comm_sum (map ?pack procs)) (well_rates this)),
                       alq_state := take m (drop (sum_list shape) (comm_sum (map ?pack procs)))\<rparr>)
                procs)"
    using each by (simp cong: map_cong)
  finally show ?thesis .
qed

lemma comm_sum_rates:
  assumes shape: "same_shape shape m procs" and ne: "procs \<noteq> []"
    and i: "i < length shape" and q: "q < shape ! i"
  shows "comm_sum (map (\<lambda>this. pack_rates (well_rates this) @ alq_state this) procs)
           ! (offset shape i + q)
         = (\<Sum>this\<leftarrow>procs. if rates_owner this i then rates_values this i ! q else 0)"
proof -
  let ?pack = "\<lambda>this. pack_rates (well_rates this) @ alq_state this"
  have hd: "hd procs \<in> set procs" using ne by simp
  have len: "\<And>this. this \<in> set procs \<Longrightarrow> length (?pack this) = sum_list shape + m"
    using shape by (auto simp add: same_shape_def length_pack_rates)
  have "offset shape i + q < sum_list shape + m"
    using offset_in_bounds [OF i] q by simp
  then have "offset shape i + q < length (hd (map ?pack procs))"
    using len [OF hd] ne by (simp add: hd_map)
  then have "comm_sum (map ?pack procs) ! (offset shape i + q)
               = (\<Sum>d\<leftarrow>map ?pack procs. d ! (offset shape i + q))"
    by (rule comm_sum_nth)
  also have "\<dots> = (\<Sum>this\<leftarrow>procs. ?pack this ! (offset shape i + q))"
    by (simp add: comp_def)
  also have "\<dots> = (\<Sum>this\<leftarrow>procs. if rates_owner this i then rates_values this i ! q else 0)"
  proof (rule sum_list_map_eq)
    fix this assume t: "this \<in> set procs"
    then have s: "map (\<lambda>e. length (snd (snd e))) (well_rates this) = shape"
      using shape by (simp add: same_shape_def)
    then have li: "i < length (well_rates this)" using i by (metis length_map)
    have "length (snd (snd (well_rates this ! i))) = shape ! i"
      using s li by (metis nth_map)
    then have lq: "q < length (snd (snd (well_rates this ! i)))" using q by simp
    from pack_nth [OF li lq, of "alq_state this"] s
    show "?pack this ! (offset shape i + q)
            = (if rates_owner this i then rates_values this i ! q else 0)"
      by (simp add: rates_owner_def rates_values_def)
  qed
  finally show ?thesis .
qed

lemma comm_sum_alq:
  assumes shape: "same_shape shape m procs" and ne: "procs \<noteq> []" and q: "q < m"
  shows "comm_sum (map (\<lambda>this. pack_rates (well_rates this) @ alq_state this) procs)
           ! (sum_list shape + q)
         = (\<Sum>this\<leftarrow>procs. alq_state this ! q)"
proof -
  let ?pack = "\<lambda>this. pack_rates (well_rates this) @ alq_state this"
  have hd: "hd procs \<in> set procs" using ne by simp
  have len: "\<And>this. this \<in> set procs \<Longrightarrow> length (?pack this) = sum_list shape + m"
    using shape by (auto simp add: same_shape_def length_pack_rates)
  have "sum_list shape + q < length (hd (map ?pack procs))"
    using len [OF hd] ne q by (simp add: hd_map)
  then have "comm_sum (map ?pack procs) ! (sum_list shape + q)
               = (\<Sum>d\<leftarrow>map ?pack procs. d ! (sum_list shape + q))"
    by (rule comm_sum_nth)
  also have "\<dots> = (\<Sum>this\<leftarrow>procs. ?pack this ! (sum_list shape + q))"
    by (simp add: comp_def)
  also have "\<dots> = (\<Sum>this\<leftarrow>procs. alq_state this ! q)"
  proof (rule sum_list_map_eq)
    fix this assume t: "this \<in> set procs"
    then have s: "map (\<lambda>e. length (snd (snd e))) (well_rates this) = shape"
      using shape by (simp add: same_shape_def)
    from pack_alq_nth [of "well_rates this" "alq_state this" q] s
    show "?pack this ! (sum_list shape + q) = alq_state this ! q" by simp
  qed
  finally show ?thesis .
qed

text \<open>
  C7. When the processes agree on the wells and exactly one process is marked owner of
  each well, the collective call returns on every process, and afterwards every process
  holds, for each well, exactly the rates the owner had before the call (names and
  ownership flags are untouched). The artificial-lift payload travels in the same
  vector, behind the rates, through the same single sum: afterwards every process holds
  the element-wise sum of the payloads of all processes.
\<close>

theorem communicateGroupRates_owner_values:
  assumes "same_shape shape m procs"
    and "\<forall>i<length shape. \<exists>k. one_owner procs i k"
  shows "\<exists>procs'. communicateGroupRates procs = Inr procs' \<and> length procs' = length procs
     \<and> (\<forall>j<length procs. \<forall>i<length shape. \<forall>k. one_owner procs i k \<longrightarrow>
           length (well_rates (procs' ! j)) = length shape
           \<and> fst (well_rates (procs' ! j) ! i) = fst (well_rates (procs ! j) ! i)
           \<and> rates_owner (procs' ! j) i = rates_owner (procs ! j) i
           \<and> rates_values (procs' ! j) i = rates_values (procs ! k) i)
     \<and> (\<forall>j<length procs.
           alq_state (procs' ! j) = map (\<lambda>q. \<Sum>this\<leftarrow>procs. alq_state this ! q) [0..<m])"
proof (cases "procs = []")
  case True
  then show ?thesis by (simp add: communicateGroupRates_def)
next
  case ne: False
  let ?pack = "\<lambda>this. pack_rates (well_rates this) @ alq_state this"
  let ?total = "comm_sum (map ?pack procs)"
  let ?upd = "\<lambda>this. this\<lparr>well_rates := fst (unpack_rates ?total (well_rates this)),
                            alq_state := take m (drop (sum_list shape) ?total)\<rparr>"
  have res: "communicateGroupRates procs = Inr (map ?upd procs)"
    by (rule communicateGroupRates_result [OF assms(1) ne])
  have hd: "hd procs \<in> set procs" using ne by simp
  have lt: "length ?total = sum_list shape + m"
    using assms(1) hd ne by (auto simp add: same_shape_def length_pack_rates hd_map)
  have rates: "\<forall>j<length procs. \<forall>i<length shape. \<forall>k. one_owner procs i k \<longrightarrow>
           length (well_rates (map ?upd procs ! j)) = length shape
           \<and> fst (well_rates (map ?upd procs ! j) ! i) = fst (well_rates (procs ! j) ! i)
           \<and> rates_owner (map ?upd procs ! j) i = rates_owner (procs ! j) i
           \<and> rates_values (map ?upd procs ! j) i = rates_values (procs ! k) i"
  proof (intro allI impI)
    fix j i k
    assume j: "j < length procs" and i: "i < length shape" and own: "one_owner procs i k"
    have pj: "procs ! j \<in> set procs" using j by simp
    then have sj: "map (\<lambda>e. length (snd (snd e))) (well_rates (procs ! j)) = shape"
      using assms(1) by (simp add: same_shape_def)
    then have lj: "length (well_rates (procs ! j)) = length shape" by (metis length_map)
    then have ij: "i < length (well_rates (procs ! j))" using i by simp
    have li: "length (snd (snd (well_rates (procs ! j) ! i))) = shape ! i"
      using sj ij by (metis nth_map)
    have k: "k < length procs" using own by (simp add: one_owner_def)
    then have pk: "procs ! k \<in> set procs" by simp
    then have sk: "map (\<lambda>e. length (snd (snd e))) (well_rates (procs ! k)) = shape"
      using assms(1) by (simp add: same_shape_def)
    then have "length (well_rates (procs ! k)) = length shape" by (metis length_map)
    then have lk: "length (rates_values (procs ! k) i) = shape ! i"
      using sk i unfolding rates_values_def by (metis nth_map)
    have entry: "well_rates (map ?upd procs ! j) ! i =
                   (fst (well_rates (procs ! j) ! i), fst (snd (well_rates (procs ! j) ! i)),
                    take (shape ! i) (drop (offset shape i) ?total))"
      using j unpack_rates_nth [OF ij, of ?total] sj li by simp
    have chunk: "take (shape ! i) (drop (offset shape i) ?total) = rates_values (procs ! k) i"
    proof (rule nth_equalityI)
      show "length (take (shape ! i) (drop (offset shape i) ?total))
              = length (rates_values (procs ! k) i)"
        using lt lk offset_in_bounds [OF i] by simp
    next
      fix q assume "q < length (take (shape ! i) (drop (offset shape i) ?total))"
      then have q: "q < shape ! i" by simp
      have in_range: "offset shape i + q < length ?total"
        using lt offset_in_bounds [OF i] q by simp
      have "take (shape ! i) (drop (offset shape i) ?total) ! q = ?total ! (offset shape i + q)"
        using q in_range by simp
      also have "\<dots> = (\<Sum>this\<leftarrow>procs. if rates_owner this i then rates_values this i ! q else 0)"
        by (rule comm_sum_rates [OF assms(1) ne i q])
      also have "\<dots> = (if rates_owner (procs ! k) i then rates_values (procs ! k) i ! q else 0)"
        by (rule sum_list_single [OF k]) (use own in \<open>simp add: one_owner_def\<close>)
      also have "\<dots> = rates_values (procs ! k) i ! q"
        using own by (simp add: one_owner_def)
      finally show "take (shape ! i) (drop (offset shape i) ?total) ! q
                      = rates_values (procs ! k) i ! q" .
    qed
    show "length (well_rates (map ?upd procs ! j)) = length shape
           \<and> fst (well_rates (map ?upd procs ! j) ! i) = fst (well_rates (procs ! j) ! i)
           \<and> rates_owner (map ?upd procs ! j) i = rates_owner (procs ! j) i
           \<and> rates_values (map ?upd procs ! j) i = rates_values (procs ! k) i"
      using j lj entry chunk
      by (simp add: unpack_rates_length rates_owner_def rates_values_def)
  qed
  have alq: "\<forall>j<length procs.
           alq_state (map ?upd procs ! j) = map (\<lambda>q. \<Sum>this\<leftarrow>procs. alq_state this ! q) [0..<m]"
  proof (intro allI impI)
    fix j assume j: "j < length procs"
    have "take m (drop (sum_list shape) ?total) = map (\<lambda>q. \<Sum>this\<leftarrow>procs. alq_state this ! q) [0..<m]"
    proof (rule nth_equalityI)
      show "length (take m (drop (sum_list shape) ?total))
              = length (map (\<lambda>q. \<Sum>this\<leftarrow>procs. alq_state this ! q) [0..<m])"
        using lt by simp
    next
      fix q assume "q < length (take m (drop (sum_list shape) ?total))"
      then have q: "q < m" by simp
      then have "take m (drop (sum_list shape) ?total) ! q = ?total ! (sum_list shape + q)"
        using lt by simp
      also have "\<dots> = (\<Sum>this\<leftarrow>procs. alq_state this ! q)"
        by (rule comm_sum_alq [OF assms(1) ne q])
      finally show "take m (drop (sum_list shape) ?total) ! q
                      = map (\<lambda>q. \<Sum>this\<leftarrow>procs. alq_state this ! q) [0..<m] ! q"
        using q by simp
    qed
    with j show "alq_state (map ?upd procs ! j)
                   = map (\<lambda>q. \<Sum>this\<leftarrow>procs. alq_state this ! q) [0..<m]"
      by simp
  qed
  show ?thesis
    by (intro exI [of _ "map ?upd procs"] conjI) (fact res, simp, fact rates, fact alq)
qed
theorem communicateGroupRates_owner_values_witness:
  "\<exists>procs'. communicateGroupRates [proc_0, proc_1] = Inr procs'
     \<and> rates_values (procs' ! 0) 1 = [3, 4] \<and> rates_values (procs' ! 1) 0 = [1, 2]
     \<and> alq_state (procs' ! 0) = [11]"
proof -
  have sh: "same_shape [2, 2] 1 [proc_0, proc_1]"
    by (simp add: same_shape_def proc_0_def proc_1_def)
  have lt2: "\<And>P. (\<forall>k'<length [proc_0, proc_1]. P k') \<longleftrightarrow> P 0 \<and> P 1"
    by (auto simp add: less_Suc_eq)
  have o0: "one_owner [proc_0, proc_1] 0 0"
    unfolding one_owner_def lt2 by (simp add: rates_owner_def proc_0_def proc_1_def)
  have o1: "one_owner [proc_0, proc_1] 1 1"
    unfolding one_owner_def lt2 by (simp add: rates_owner_def proc_0_def proc_1_def)
  have own: "\<forall>i<length [2, 2::nat]. \<exists>k. one_owner [proc_0, proc_1] i k"
  proof (intro allI impI)
    fix i :: nat assume "i < length [2, 2::nat]"
    then have "i = 0 \<or> i = 1" by auto
    with o0 o1 show "\<exists>k. one_owner [proc_0, proc_1] i k" by blast
  qed
  from communicateGroupRates_owner_values [OF sh own] obtain procs' where
    run: "communicateGroupRates [proc_0, proc_1] = Inr procs'"
    and r: "\<forall>j<length [proc_0, proc_1]. \<forall>i<length [2, 2::nat]. \<forall>k.
              one_owner [proc_0, proc_1] i k \<longrightarrow>
                length (well_rates (procs' ! j)) = length [2, 2::nat]
                \<and> fst (well_rates (procs' ! j) ! i) = fst (well_rates ([proc_0, proc_1] ! j) ! i)
                \<and> rates_owner (procs' ! j) i = rates_owner ([proc_0, proc_1] ! j) i
                \<and> rates_values (procs' ! j) i = rates_values ([proc_0, proc_1] ! k) i"
    and a: "\<forall>j<length [proc_0, proc_1].
              alq_state (procs' ! j) = map (\<lambda>q. \<Sum>this\<leftarrow>[proc_0, proc_1]. alq_state this ! q) [0..<1]"
    by blast
  have "rates_values (procs' ! 0) 1 = rates_values ([proc_0, proc_1] ! 1) 1"
    using r o1 by (simp add: lt2)
  then have r01: "rates_values (procs' ! 0) 1 = [3, 4]"
    by (simp add: rates_values_def proc_1_def)
  have "rates_values (procs' ! 1) 0 = rates_values ([proc_0, proc_1] ! 0) 0"
    using r o0 by (simp add: lt2)
  then have r10: "rates_values (procs' ! 1) 0 = [1, 2]"
    by (simp add: rates_values_def proc_0_def)
  have "alq_state (procs' ! 0) = map (\<lambda>q. \<Sum>this\<leftarrow>[proc_0, proc_1]. alq_state this ! q) [0..<1]"
    using a by (simp add: lt2)
  then have a0: "alq_state (procs' ! 0) = [11]"
    by (simp add: proc_0_def proc_1_def)
  from run r01 r10 a0 show ?thesis by blast
qed
subsection \<open>init: the loops over connections\<close>

lemma length_set_perf_rates [simp]: "length (set_perf_rates np perf val r) = length r"
  unfolding set_perf_rates_def by (rule length_foldl_update)

lemma length_distribute_rates [simp]: "length (distribute_rates np n val r) = length r"
  unfolding distribute_rates_def by (induction n) simp_all

lemma set_perf_rates_nth_aux:
  "np * perf + m \<le> length r \<Longrightarrow>
   foldl (\<lambda>r p. r[np * perf + p := val p]) r [0..<m] ! j =
     (if np * perf \<le> j \<and> j < np * perf + m then val (j - np * perf) else r ! j)"
proof (induction m arbitrary: j)
  case 0
  then show ?case by auto
next
  case (Suc m)
  let ?r = "foldl (\<lambda>r p. r[np * perf + p := val p]) r [0..<m]"
  have len: "length ?r = length r" by (rule length_foldl_update)
  have IH: "\<And>j. ?r ! j =
     (if np * perf \<le> j \<and> j < np * perf + m then val (j - np * perf) else r ! j)"
    using Suc by simp
  have step: "foldl (\<lambda>r p. r[np * perf + p := val p]) r [0..<Suc m] = ?r[np * perf + m := val m]"
    by simp
  show ?case
  proof (cases "j = np * perf + m")
    case True
    then show ?thesis using Suc.prems len by (simp add: step)
  next
    case False
    then show ?thesis using IH [of j] by (auto simp add: step)
  qed
qed

lemma set_perf_rates_nth:
  assumes "np * perf + np \<le> length r" and "q < np"
  shows "set_perf_rates np perf val r ! (np * t + q) = (if t = perf then val q else r ! (np * t + q))"
proof -
  have "set_perf_rates np perf val r ! (np * t + q) =
     (if np * perf \<le> np * t + q \<and> np * t + q < np * perf + np
      then val (np * t + q - np * perf) else r ! (np * t + q))"
    unfolding set_perf_rates_def by (rule set_perf_rates_nth_aux [OF assms(1)])
  then show ?thesis using block_index [OF assms(2), of perf t] by auto
qed

lemma distribute_rates_nth:
  assumes "q < np"
  shows "np * n \<le> length r \<Longrightarrow>
         distribute_rates np n val r ! (np * t + q) = (if t < n then val q else r ! (np * t + q))"
proof (induction n)
  case 0
  then show ?case by (simp add: distribute_rates_def)
next
  case (Suc n)
  have step: "distribute_rates np (Suc n) val r = set_perf_rates np n val (distribute_rates np n val r)"
    by (simp add: distribute_rates_def)
  have b: "np * n + np \<le> length (distribute_rates np n val r)" using Suc.prems by simp
  have "np * n \<le> length r" using Suc.prems by simp
  from Suc.IH [OF this] set_perf_rates_nth [OF b assms, of val t]
  show ?case by (auto simp add: step)
qed

subsection \<open>init: the loops over wells\<close>

lemma well_loop_Done:
  "well_loop body es ws = Done ws' \<Longrightarrow>
   length es \<le> length ws \<and> length ws' = length ws
   \<and> (\<forall>i<length es. body (es ! i) (ws ! i) = Done (ws' ! i))
   \<and> (\<forall>i. length es \<le> i \<longrightarrow> ws' ! i = ws ! i)"
proof (induction body es ws arbitrary: ws' rule: well_loop.induct)
  case (1 body ws)
  then show ?case by simp
next
  case (2 body e es)
  then show ?case by simp
next
  case (3 body e es w ws)
  from "3.prems" obtain w' where w': "body e w = Done w'"
    by (cases "body e w") simp_all
  with "3.prems" obtain ws1 where ws1: "well_loop body es ws = Done ws1" and r: "ws' = w' # ws1"
    by (cases "well_loop body es ws") simp_all
  note IH = "3.IH" [OF w' ws1]
  have a: "length (e # es) \<le> length (w # ws)" using IH by simp
  have b: "length ws' = length (w # ws)" using IH r by simp
  have c: "\<forall>i<length (e # es). body ((e # es) ! i) ((w # ws) ! i) = Done (ws' ! i)"
  proof (intro allI impI)
    fix i assume i: "i < length (e # es)"
    show "body ((e # es) ! i) ((w # ws) ! i) = Done (ws' ! i)"
    proof (cases i)
      case 0
      then show ?thesis using w' r by simp
    next
      case (Suc i')
      with i have "i' < length es" by simp
      with IH Suc r show ?thesis by simp
    qed
  qed
  have d: "\<forall>i. length (e # es) \<le> i \<longrightarrow> ws' ! i = (w # ws) ! i"
  proof (intro allI impI)
    fix i assume i: "length (e # es) \<le> i"
    then obtain i' where i': "i = Suc i'" "length es \<le> i'" by (cases i) simp_all
    with IH r show "ws' ! i = (w # ws) ! i" by simp
  qed
  show ?case by (intro conjI) (fact a, fact b, fact c, fact d)
qed

lemma set_events_map:
  "set_events wg ecl ws =
     map (\<lambda>w. if ws_name w \<in> name ` set ecl \<and> wg (ws_name w) \<noteq> None
               then w\<lparr>events := the (wg (ws_name w))\<rparr> else w) ws"
proof (induction ecl arbitrary: ws)
  case Nil
  then show ?case by simp
next
  case (Cons e ecl)
  show ?case
  proof (cases "wg (name e)")
    case None
    then show ?thesis using Cons.IH [of ws] by (auto intro!: map_cong)
  next
    case (Some ev)
    then show ?thesis
      using Cons.IH [of "map (\<lambda>w. if ws_name w = name e then w\<lparr>events := ev\<rparr> else w) ws"]
      by (auto simp add: comp_def)
  qed
qed
lemma set_surface_rate_frame:
  "set_surface_rate pu ph v ws = Done ws' \<Longrightarrow> ws' = ws\<lparr>surface_rates := surface_rates ws'\<rparr>"
  by (auto simp add: set_surface_rate_def split: if_splits)

lemma init_well_rates_frame:
  "init_well_rates pu well ws = Done ws' \<Longrightarrow> ws' = ws\<lparr>surface_rates := surface_rates ws'\<rparr>"
  unfolding init_well_rates_def
  by (auto split: if_splits InjectorType.splits ProducerCMode.splits
      dest: set_surface_rate_frame)

lemma initSingleWell_added_frame:
  assumes "initSingleWell_added pu cp well info ws = Done ws'"
  shows "ws' = ws\<lparr>status := status ws', bhp := bhp ws', thp := thp ws',
                   surface_rates := surface_rates ws'\<rparr>"
proof (cases "perf_size (perf_data ws) = 0")
  case True
  with assms show ?thesis by (simp add: initSingleWell_added_def)
next
  case False
  define ws2 where
    "ws2 = (if (if isInjector well then inj_hasControl (injectionControls well) Injector_THP
                else prod_hasControl (productionControls well) Producer_THP)
            then (if getStatus well = OPEN then ws\<lparr>status := OPEN\<rparr> else ws)
                   \<lparr>thp := (if isInjector well then inj_thp_limit (injectionControls well)
                            else prod_thp_limit (productionControls well))\<rparr>
            else (if getStatus well = OPEN then ws\<lparr>status := OPEN\<rparr> else ws))"
  have "ws2 = ws\<lparr>status := status ws2, thp := thp ws2\<rparr>"
    by (simp add: ws2_def)
  then obtain s t where f2: "ws2 = ws\<lparr>status := s, thp := t\<rparr>" by blast
  from assms False obtain b where
    r: "ws' = ws2\<lparr>bhp := b\<rparr> \<or> (\<exists>ws3. init_well_rates pu well ws2 = Done ws3 \<and> ws' = ws3\<lparr>bhp := b\<rparr>)"
    unfolding initSingleWell_added_def Let_def ws2_def
    by (auto split: if_splits outcome.splits)
  then show ?thesis
  proof
    assume "ws' = ws2\<lparr>bhp := b\<rparr>"
    then show ?thesis by (simp add: f2)
  next
    assume "\<exists>ws3. init_well_rates pu well ws2 = Done ws3 \<and> ws' = ws3\<lparr>bhp := b\<rparr>"
    then obtain ws3 where i: "init_well_rates pu well ws2 = Done ws3" and e: "ws' = ws3\<lparr>bhp := b\<rparr>"
      by blast
    from init_well_rates_frame [OF i] have "ws3 = ws2\<lparr>surface_rates := surface_rates ws3\<rparr>" .
    with e have "ws' = ws2\<lparr>surface_rates := surface_rates ws3, bhp := b\<rparr>" by simp
    then show ?thesis by (simp add: f2)
  qed
qed
lemma initSingleWell_Done_conv:
  assumes "initSingleWell cp well wpd info this = Done this'"
  shows "isInjector well \<noteq> isProducer well
         \<and> (\<exists>ws. single_well_init (phase_usage this) cp well wpd info = Done ws
                  \<and> this' = this\<lparr>wells := wells this @ [ws]\<rparr>)"
  using assms
  by (auto simp add: initSingleWell_def single_well_init_def Let_def
      split: if_splits outcome.splits)

lemma base_init_loop_Done:
  "base_init_loop cp es pds wis this = Done this' \<Longrightarrow>
   length es \<le> length pds \<and> length es \<le> length wis
   \<and> (\<exists>new. this' = this\<lparr>wells := wells this @ new\<rparr> \<and> length new = length es
         \<and> (\<forall>i<length es.
               single_well_init (phase_usage this) cp (es ! i) (pds ! i) (wis ! i) = Done (new ! i)))"
proof (induction cp es pds wis this arbitrary: this' rule: base_init_loop.induct)
  case (1 cp wpds infos this)
  then show ?case by simp
next
  case (2 cp well wells_ecl wpd wpds info infos this)
  from "2.prems" obtain this1 where
    one: "initSingleWell cp well wpd info this = Done this1"
    and rest: "base_init_loop cp wells_ecl wpds infos this1 = Done this'"
    by (cases "initSingleWell cp well wpd info this") simp_all
  from initSingleWell_Done_conv [OF one] obtain ws where
    ws: "single_well_init (phase_usage this) cp well wpd info = Done ws"
    and this1: "this1 = this\<lparr>wells := wells this @ [ws]\<rparr>"
    by blast
  from "2.IH" [OF one rest] obtain new where
    l1: "length wells_ecl \<le> length wpds" and l2: "length wells_ecl \<le> length infos"
    and e: "this' = this1\<lparr>wells := wells this1 @ new\<rparr>" and ln: "length new = length wells_ecl"
    and each: "\<forall>i<length wells_ecl.
                 single_well_init (phase_usage this1) cp (wells_ecl ! i) (wpds ! i) (infos ! i)
                   = Done (new ! i)"
    by blast
  have pu: "phase_usage this1 = phase_usage this" using this1 by simp
  have e': "this' = this\<lparr>wells := wells this @ (ws # new)\<rparr>" using e this1 by simp
  have each': "\<forall>i<length (well # wells_ecl).
                 single_well_init (phase_usage this) cp ((well # wells_ecl) ! i) ((wpd # wpds) ! i)
                   ((info # infos) ! i) = Done ((ws # new) ! i)"
  proof (intro allI impI)
    fix i assume i: "i < length (well # wells_ecl)"
    show "single_well_init (phase_usage this) cp ((well # wells_ecl) ! i) ((wpd # wpds) ! i)
                   ((info # infos) ! i) = Done ((ws # new) ! i)"
    proof (cases i)
      case 0
      then show ?thesis using ws by simp
    next
      case (Suc i')
      with i have "i' < length wells_ecl" by simp
      with each pu Suc show ?thesis by simp
    qed
  qed
  have "length (well # wells_ecl) \<le> length (wpd # wpds)" using l1 by simp
  moreover have "length (well # wells_ecl) \<le> length (info # infos)" using l2 by simp
  moreover have "length (ws # new) = length (well # wells_ecl)" using ln by simp
  ultimately show ?case using e' each' by blast
qed simp_all

lemma single_well_init_frame:
  assumes "single_well_init pu cp well wpd info = Done a"
  shows "ws_name a = name well" "producer a = isProducer well" "events a = (\<lambda>mask. False)"
    "perf_data a = PerfData_new (num_phases pu) wpd"
    "reservoir_rates a = replicate (num_phases pu) 0"
    "well_potentials a = replicate (num_phases pu) 0"
    "productivity_index a = replicate (num_phases pu) 0"
    "length (surface_rates a) = num_phases pu"
proof -
  let ?new = "SingleWellState_new (name well) info (isProducer well) wpd (num_phases pu)
          (if isInjector well then inj_temperature (injectionControls well)
           else 273.15 + 15.56)"
  from assms have d: "initSingleWell_added pu cp well info ?new = Done a"
    by (simp add: single_well_init_def)
  from initSingleWell_added_frame [OF d] obtain s b t r where
    a: "a = ?new\<lparr>status := s, bhp := b, thp := t, surface_rates := r\<rparr>" by blast
  show "ws_name a = name well" "producer a = isProducer well" "events a = (\<lambda>mask. False)"
    "perf_data a = PerfData_new (num_phases pu) wpd"
    "reservoir_rates a = replicate (num_phases pu) 0"
    "well_potentials a = replicate (num_phases pu) 0"
    "productivity_index a = replicate (num_phases pu) 0"
    by (simp_all add: a SingleWellState_new_def)
  show "length (surface_rates a) = num_phases pu"
  proof (cases "perf_size (perf_data ?new) = 0")
    case True
    with d have "a = ?new" by (simp add: initSingleWell_added_def)
    then show ?thesis by (simp add: SingleWellState_new_def)
  next
    case False
    define ws2 where
      "ws2 = (if (if isInjector well then inj_hasControl (injectionControls well) Injector_THP
                  else prod_hasControl (productionControls well) Producer_THP)
              then (if getStatus well = OPEN then ?new\<lparr>status := OPEN\<rparr> else ?new)
                     \<lparr>thp := (if isInjector well then inj_thp_limit (injectionControls well)
                              else prod_thp_limit (productionControls well))\<rparr>
              else (if getStatus well = OPEN then ?new\<lparr>status := OPEN\<rparr> else ?new))"
    have l2: "length (surface_rates ws2) = num_phases pu"
      by (simp add: ws2_def SingleWellState_new_def)
    from d False obtain b' where
      r: "a = ws2\<lparr>bhp := b'\<rparr> \<or> (\<exists>ws3. init_well_rates pu well ws2 = Done ws3 \<and> a = ws3\<lparr>bhp := b'\<rparr>)"
      unfolding initSingleWell_added_def Let_def ws2_def
      by (auto split: if_splits outcome.splits)
    then show ?thesis
    proof
      assume "a = ws2\<lparr>bhp := b'\<rparr>"
      with l2 show ?thesis by simp
    next
      assume "\<exists>ws3. init_well_rates pu well ws2 = Done ws3 \<and> a = ws3\<lparr>bhp := b'\<rparr>"
      then obtain ws3 where i: "init_well_rates pu well ws2 = Done ws3" and e: "a = ws3\<lparr>bhp := b'\<rparr>"
        by blast
      have "length (surface_rates ws3) = length (surface_rates ws2)"
        using i unfolding init_well_rates_def set_surface_rate_def
        by (auto split: if_splits InjectorType.splits ProducerCMode.splits)
      with e l2 show ?thesis by simp
    qed
  qed
qed
lemma init_structure:
  assumes run: "init it ta em cp schedule ecl pwi prevState wpd this = Done st"
  shows "\<exists>fresh. length fresh = length ecl \<and> length (wells st) = length ecl
      \<and> phase_usage st = phase_usage this
      \<and> (\<forall>w<length ecl. \<exists>a b.
            single_well_init (phase_usage this) cp (ecl ! w) (wpd ! w) (pwi ! w) = Done a
            \<and> init_perf_rates (num_phases (phase_usage this)) cp (ecl ! w, wpd ! w)
                  (a\<lparr>events := recorded_events schedule (ecl ! w)\<rparr>) = Done b
            \<and> fresh ! w = apply_status (ecl ! w) (set_cmode (ecl ! w) b))
      \<and> (\<forall>w<length ecl.
            carry_step it ta em (num_phases (phase_usage this)) prevState (ecl ! w) (fresh ! w)
              = Done (wells st ! w))
      \<and> init it ta em cp schedule ecl pwi None wpd this = Done (st\<lparr>wells := fresh\<rparr>)"
proof -
  from run obtain this1 where b: "base_init cp ecl pwi wpd this = Done this1"
    by (cases "base_init cp ecl pwi wpd this") (simp_all add: init_def)
  from base_init_loop_Done [OF b [unfolded base_init_def]] obtain new where
    l1: "length ecl \<le> length wpd" and l2: "length ecl \<le> length pwi"
    and this1: "this1 = this\<lparr>wells := new\<rparr>" and ln: "length new = length ecl"
    and each: "\<forall>i<length ecl.
                 single_well_init (phase_usage this) cp (ecl ! i) (wpd ! i) (pwi ! i) = Done (new ! i)"
    by auto
  define np where "np = num_phases (phase_usage this)"
  define wr where "wr = foldl (\<lambda>wr winfo. well_rates_set_owner winfo wr)
                          (foldl (\<lambda>wr wname. well_rates_insert wname np wr)
                             (well_rates this) (wellNames schedule)) pwi"
  define this2 where "this2 = this\<lparr>wells := new, well_rates := wr\<rparr>"
  show ?thesis
  proof (cases "ecl = []")
    case True
    with ln have n: "new = []" by simp
    from run b True have st: "st = this2"
      by (simp add: init_def Let_def this1 this2_def wr_def np_def)
    have none: "init it ta em cp schedule ecl pwi None wpd this = Done this2"
      using b True by (simp add: init_def Let_def this1 this2_def wr_def np_def)
    have "st\<lparr>wells := []\<rparr> = this2" using st n by (simp add: this2_def)
    with none True st n show ?thesis
      by (intro exI [of _ "[]"]) (simp add: this2_def)
  next
    case ne: False
    define ws3 where "ws3 = set_events (wellgroup_events schedule) ecl new"
    define ws6 where "ws6 = (\<lambda>ws4. map2 apply_status ecl (map2 set_cmode ecl ws4))"
    obtain ws4 where wl: "well_loop (init_perf_rates np cp) (zip ecl wpd) ws3 = Done ws4"
      using run b ne
      by (cases "well_loop (init_perf_rates np cp) (zip ecl wpd) ws3")
         (simp_all add: init_def Let_def this1 np_def ws3_def)
    let ?carry = "(case prevState of
             None \<Rightarrow> Done (ws6 ws4)
           | Some prev \<Rightarrow>
               if wells prev = [] then Done (ws6 ws4)
               else well_loop (carry_over it ta em np prev) ecl (ws6 ws4))"
    have run2: "(case ?carry of
                   Threw e ws7 \<Rightarrow> Threw e (this2\<lparr>wells := ws7\<rparr>)
                 | Done ws7 \<Rightarrow> Done (this2\<lparr>wells := ws7\<rparr>)) = Done st"
      using run b ne wl
      by (simp add: init_def Let_def this1 this2_def wr_def np_def ws3_def ws6_def
          cong: outcome.case_cong option.case_cong if_cong)
    obtain ws7 where c: "?carry = Done ws7" and st: "st = this2\<lparr>wells := ws7\<rparr>"
      using run2 by (cases ?carry) simp_all
    have none: "init it ta em cp schedule ecl pwi None wpd this = Done (this2\<lparr>wells := ws6 ws4\<rparr>)"
      using b ne wl
      by (simp add: init_def Let_def this1 this2_def wr_def np_def ws3_def ws6_def)
    have lz: "length (zip ecl wpd) = length ecl" using l1 by simp
    have l3: "length ws3 = length ecl" using ln by (simp add: ws3_def set_events_map)
    from well_loop_Done [OF wl] lz l3 have l4: "length ws4 = length ecl"
      and p4: "\<forall>i<length ecl. init_perf_rates np cp (zip ecl wpd ! i) (ws3 ! i) = Done (ws4 ! i)"
      by simp_all
    have l6: "length (ws6 ws4) = length ecl" using l4 by (simp add: ws6_def)
    have n6: "\<And>w. w < length ecl \<Longrightarrow>
                ws6 ws4 ! w = apply_status (ecl ! w) (set_cmode (ecl ! w) (ws4 ! w))"
      using l4 by (simp add: ws6_def)
    have l7: "length ws7 = length ecl"
    proof (cases prevState)
      case None
      with c l6 show ?thesis by auto
    next
      case (Some prev)
      show ?thesis
      proof (cases "wells prev = []")
        case True
        with c Some l6 show ?thesis by auto
      next
        case False
        with c Some have "well_loop (carry_over it ta em np prev) ecl (ws6 ws4) = Done ws7"
          by simp
        from well_loop_Done [OF this] l6 show ?thesis by simp
      qed
    qed
    have c7: "\<forall>w<length ecl. carry_step it ta em np prevState (ecl ! w) (ws6 ws4 ! w)
                 = Done (ws7 ! w)"
    proof (intro allI impI)
      fix w assume w: "w < length ecl"
      show "carry_step it ta em np prevState (ecl ! w) (ws6 ws4 ! w) = Done (ws7 ! w)"
      proof (cases prevState)
        case None
        with c show ?thesis by (simp add: carry_step_def)
      next
        case (Some prev)
        show ?thesis
        proof (cases "wells prev = []")
          case True
          with c Some show ?thesis by (simp add: carry_step_def)
        next
          case False
          with c Some have "well_loop (carry_over it ta em np prev) ecl (ws6 ws4) = Done ws7"
            by simp
          from well_loop_Done [OF this] w Some False show ?thesis by (simp add: carry_step_def)
        qed
      qed
    qed
    have stage: "\<forall>w<length ecl. \<exists>a b.
            single_well_init (phase_usage this) cp (ecl ! w) (wpd ! w) (pwi ! w) = Done a
            \<and> init_perf_rates np cp (ecl ! w, wpd ! w)
                  (a\<lparr>events := recorded_events schedule (ecl ! w)\<rparr>) = Done b
            \<and> ws6 ws4 ! w = apply_status (ecl ! w) (set_cmode (ecl ! w) b)"
    proof (intro allI impI)
      fix w assume w: "w < length ecl"
      from each w have a: "single_well_init (phase_usage this) cp (ecl ! w) (wpd ! w) (pwi ! w)
                             = Done (new ! w)" by simp
      note f = single_well_init_frame [OF a]
      have mem: "name (ecl ! w) \<in> name ` set ecl" using w by simp
      have ev: "ws3 ! w = (new ! w)\<lparr>events := recorded_events schedule (ecl ! w)\<rparr>"
      proof (cases "wellgroup_events schedule (name (ecl ! w))")
        case None
        then have "ws3 ! w = new ! w" using w ln f(1) by (simp add: ws3_def set_events_map)
        moreover have "recorded_events schedule (ecl ! w) = events (new ! w)"
          using None f(3) by (simp add: recorded_events_def)
        ultimately show ?thesis by simp
      next
        case (Some ev)
        then show ?thesis using w ln f(1) mem
          by (simp add: ws3_def set_events_map recorded_events_def)
      qed
      have z: "zip ecl wpd ! w = (ecl ! w, wpd ! w)" using w l1 by simp
      from p4 w have "init_perf_rates np cp (zip ecl wpd ! w) (ws3 ! w) = Done (ws4 ! w)"
        by blast
      then have
        "init_perf_rates np cp (ecl ! w, wpd ! w)
           ((new ! w)\<lparr>events := recorded_events schedule (ecl ! w)\<rparr>) = Done (ws4 ! w)"
        unfolding z ev .
      with a n6 [OF w]
      show "\<exists>a b.
            single_well_init (phase_usage this) cp (ecl ! w) (wpd ! w) (pwi ! w) = Done a
            \<and> init_perf_rates np cp (ecl ! w, wpd ! w)
                  (a\<lparr>events := recorded_events schedule (ecl ! w)\<rparr>) = Done b
            \<and> ws6 ws4 ! w = apply_status (ecl ! w) (set_cmode (ecl ! w) b)"
        by blast
    qed
    have pu: "phase_usage st = phase_usage this" using st by (simp add: this2_def)
    have lw: "length (wells st) = length ecl" using st l7 by simp
    have wst: "\<And>w. wells st ! w = ws7 ! w" using st by simp
    have none': "init it ta em cp schedule ecl pwi None wpd this = Done (st\<lparr>wells := ws6 ws4\<rparr>)"
      using none st by simp
    show ?thesis
      unfolding np_def [symmetric]
      by (intro exI [of _ "ws6 ws4"] conjI)
         (fact l6, fact lw, fact pu, fact stage, simp add: wst c7, fact none')
  qed
qed
subsection \<open>init: one well\<close>

lemma init_perf_rates_Done:
  assumes "init_perf_rates np cp (well, wpd) ws = Done b"
  shows "b = ws\<lparr>perf_data := (perf_data ws)
                \<lparr>phase_rates :=
                   (if getStatus well = OPEN
                    then distribute_rates np (perf_size (perf_data ws))
                           (\<lambda>p. surface_rates ws ! p / real (num_open well))
                           (phase_rates (perf_data ws))
                    else phase_rates (perf_data ws)),
                 pressure := set_pressures cp wpd (perf_size (perf_data ws))
                               (pressure (perf_data ws))\<rparr>\<rparr>"
  using assms unfolding init_perf_rates_def Let_def fst_conv snd_conv
  by (simp split: if_splits)

lemma fresh_well_fields:
  assumes a: "single_well_init pu cp well wpd info = Done a"
    and b: "init_perf_rates (num_phases pu) cp (well, wpd) (a\<lparr>events := ev\<rparr>) = Done b"
  shows "surface_rates b = surface_rates a" "producer b = isProducer well" "events b = ev"
    "reservoir_rates b = replicate (num_phases pu) 0"
    "well_potentials b = replicate (num_phases pu) 0"
    "productivity_index b = replicate (num_phases pu) 0"
    "perf_size (perf_data b) = length wpd"
    "length (phase_rates (perf_data b)) = num_phases pu * length wpd"
    "length (surface_rates b) = num_phases pu"
    "getStatus well = OPEN \<Longrightarrow> perf < length wpd \<Longrightarrow> p < num_phases pu \<Longrightarrow>
       phase_rates (perf_data b) ! (num_phases pu * perf + p)
         = surface_rates a ! p / real (num_open well)"
proof -
  note f = single_well_init_frame [OF a]
  note e = init_perf_rates_Done [OF b]
  have sz: "perf_size (perf_data (a\<lparr>events := ev\<rparr>)) = length wpd"
    using f(4) by simp
  have lp: "length (phase_rates (perf_data (a\<lparr>events := ev\<rparr>))) = num_phases pu * length wpd"
    using f(4) by (simp add: PerfData_new_def)
  show "surface_rates b = surface_rates a" by (subst e) simp
  show "producer b = isProducer well" using f(2) by (subst e) simp
  show "events b = ev" by (subst e) simp
  show "reservoir_rates b = replicate (num_phases pu) 0" using f(5) by (subst e) simp
  show "well_potentials b = replicate (num_phases pu) 0" using f(6) by (subst e) simp
  show "productivity_index b = replicate (num_phases pu) 0" using f(7) by (subst e) simp
  show "perf_size (perf_data b) = length wpd" using sz by (subst e) (simp add: perf_size_def)
  show "length (phase_rates (perf_data b)) = num_phases pu * length wpd"
    using lp by (subst e) simp
  show "length (surface_rates b) = num_phases pu" using f(8) by (subst e) simp
  assume o: "getStatus well = OPEN" and perf: "perf < length wpd" and p: "p < num_phases pu"
  have "phase_rates (perf_data b) =
          distribute_rates (num_phases pu) (length wpd)
            (\<lambda>p. surface_rates a ! p / real (num_open well))
            (phase_rates (perf_data (a\<lparr>events := ev\<rparr>)))"
    using o sz by (subst e) simp
  moreover have "num_phases pu * length wpd \<le> length (phase_rates (perf_data (a\<lparr>events := ev\<rparr>)))"
    using lp by simp
  ultimately show "phase_rates (perf_data b) ! (num_phases pu * perf + p)
         = surface_rates a ! p / real (num_open well)"
    using distribute_rates_nth [OF p, of "length wpd" _ _ perf] perf by simp
qed

lemma apply_status_fields:
  "producer (apply_status well (set_cmode well b)) = producer b"
  "events (apply_status well (set_cmode well b)) = events b"
  "reservoir_rates (apply_status well (set_cmode well b)) = reservoir_rates b"
  "well_potentials (apply_status well (set_cmode well b)) = well_potentials b"
  "productivity_index (apply_status well (set_cmode well b)) = productivity_index b"
  "perf_data (apply_status well (set_cmode well b)) = perf_data b"
  "length (surface_rates (apply_status well (set_cmode well b))) = length (surface_rates b)"
  "getStatus well = OPEN \<Longrightarrow> surface_rates (apply_status well (set_cmode well b)) = surface_rates b"
  by (cases "getStatus well"; simp add: apply_status_def set_cmode_def shut_def stop_def open_well_def)+

lemma carry_step_none:
  assumes frame: "init_timestep_frame it"
    and prod: "producer c0 = isProducer well"
    and no: "\<forall>prev_well. \<not> carries_over prevState well prev_well"
    and run: "carry_step it ta em np prevState well c0 = Done f"
  shows "f = c0\<lparr>bhp := bhp f, thp := thp f, temperature := temperature f\<rparr>"
proof (cases prevState)
  case None
  with run show ?thesis by (simp add: carry_step_def)
next
  case (Some prev)
  show ?thesis
  proof (cases "wells prev = [] \<or> getStatus well = SHUT")
    case True
    with run Some show ?thesis
      by (auto simp add: carry_step_def carry_over_def split: if_splits)
  next
    case False
    then have co: "carry_over it ta em np prev well c0 = Done f"
      using run Some by (simp add: carry_step_def)
    show ?thesis
    proof (cases "find (\<lambda>pw. ws_name pw = name well) (wells prev)")
      case None
      with co False show ?thesis by (auto simp add: carry_over_def)
    next
      case (Some pw)
      from frame obtain x y z where it: "it c0 pw = c0\<lparr>bhp := x, thp := y, temperature := z\<rparr>"
        unfolding init_timestep_frame_def by blast
      have pof: "prev_well_of prevState well = Some pw"
        using \<open>prevState = Some prev\<close> Some by (simp add: prev_well_of_def)
      have skip: "status pw = SHUT \<or> producer (it c0 pw) \<noteq> producer pw"
      proof (rule ccontr)
        assume "\<not> (status pw = SHUT \<or> producer (it c0 pw) \<noteq> producer pw)"
        then have "carries_over prevState well pw"
          using False pof prod it by (simp add: carries_over_def)
        with no show False by blast
      qed
      have ns: "getStatus well \<noteq> SHUT" using False by simp
      have "carry_over it ta em np prev well c0 = Done (it c0 pw)"
      proof (cases "status pw = SHUT")
        case True
        then show ?thesis using ns Some by (simp add: carry_over_def Let_def)
      next
        case False
        with skip have "producer (it c0 pw) \<noteq> producer pw" by simp
        with False show ?thesis using ns Some by (simp add: carry_over_def Let_def)
      qed
      with co have "f = it c0 pw" by simp
      with it show ?thesis by simp
    qed
  qed
qed
lemma carry_step_copy:
  assumes frame: "init_timestep_frame it"
    and prod: "producer c0 = isProducer well"
    and co: "carries_over prevState well pw"
    and run: "carry_step it ta em np prevState well c0 = Done f"
  shows "surface_rates f = surface_rates pw" "reservoir_rates f = reservoir_rates pw"
    "well_potentials f = well_potentials pw" "productivity_index f = productivity_index pw"
    "\<not> events c0 em \<Longrightarrow>
       injection_cmode f = injection_cmode pw \<and> production_cmode f = production_cmode pw"
    "events c0 em \<Longrightarrow>
       injection_cmode f = injection_cmode c0 \<and> production_cmode f = production_cmode c0"
    "perf_size (perf_data c0) \<noteq> perf_size (perf_data pw) \<Longrightarrow>
       perf < perf_size (perf_data c0) \<Longrightarrow> p < np \<Longrightarrow>
       perf_size (perf_data f) = perf_size (perf_data c0)
       \<and> phase_rates (perf_data f) ! (np * perf + p) = surface_rates pw ! p / real (num_open well)"
proof -
  from co obtain prev where ps: "prevState = Some prev"
    and fnd: "find (\<lambda>pw. ws_name pw = name well) (wells prev) = Some pw"
    and ns: "getStatus well \<noteq> SHUT" and nps: "status pw \<noteq> SHUT"
    and role: "isProducer well = producer pw"
    by (cases prevState) (auto simp add: carries_over_def prev_well_of_def)
  have ne: "wells prev \<noteq> []" using fnd by auto
  from frame obtain x y z where it: "it c0 pw = c0\<lparr>bhp := x, thp := y, temperature := z\<rparr>"
    unfolding init_timestep_frame_def by blast
  define n1 where "n1 = it c0 pw"
  define n3 where
    "n3 = (if \<not> events n1 em
           then n1\<lparr>injection_cmode := injection_cmode pw,
                    production_cmode := production_cmode pw\<rparr>
           else n1)\<lparr>surface_rates := surface_rates pw,
                     reservoir_rates := reservoir_rates pw,
                     well_potentials := well_potentials pw\<rparr>"
  define n4 where
    "n4 = n3\<lparr>perf_data :=
               (if perf_size (perf_data n3) = perf_size (perf_data pw)
                then ta (perf_data n3) (perf_data pw)
                else (perf_data n3)\<lparr>phase_rates :=
                       distribute_rates np (perf_size (perf_data n3))
                         (\<lambda>p. surface_rates n3 ! p / real (num_open well))
                         (phase_rates (perf_data n3))\<rparr>),
             productivity_index := productivity_index pw\<rparr>"
  define bad where
    "bad \<longleftrightarrow> perf_size (perf_data n3) \<noteq> perf_size (perf_data pw)
             \<and> 0 < perf_size (perf_data n3) \<and> 0 < np
             \<and> \<not> (np * perf_size (perf_data n3) \<le> length (phase_rates (perf_data n3))
                  \<and> np \<le> length (surface_rates n3))"
  have p1: "producer n1 = producer pw" using it prod role by (simp add: n1_def)
  have unf: "carry_over it ta em np prev well c0 =
               (if bad then Threw OutOfBounds n3
                else Done (if \<not> well_has_thp well then n4\<lparr>thp := 0\<rparr> else n4))"
    using ns fnd nps p1
    unfolding carry_over_def Let_def bad_def n4_def n3_def n1_def
    by (simp cong: if_cong)
  from run ps ne have "carry_over it ta em np prev well c0 = Done f"
    by (simp add: carry_step_def)
  with unf have nb: "\<not> bad" and f: "f = (if \<not> well_has_thp well then n4\<lparr>thp := 0\<rparr> else n4)"
    by (auto split: if_splits)
  have e1: "events n1 = events c0" "injection_cmode n1 = injection_cmode c0"
    "production_cmode n1 = production_cmode c0" "perf_data n1 = perf_data c0"
    using it by (simp_all add: n1_def)
  have pd3: "perf_data n3 = perf_data c0" using e1 by (simp add: n3_def)
  have sr3: "surface_rates n3 = surface_rates pw" by (simp add: n3_def)
  show "surface_rates f = surface_rates pw" by (simp add: f n4_def n3_def)
  show "reservoir_rates f = reservoir_rates pw" by (simp add: f n4_def n3_def)
  show "well_potentials f = well_potentials pw" by (simp add: f n4_def n3_def)
  show "productivity_index f = productivity_index pw" by (simp add: f n4_def)
  show "\<not> events c0 em \<Longrightarrow>
       injection_cmode f = injection_cmode pw \<and> production_cmode f = production_cmode pw"
    using e1 by (simp add: f n4_def n3_def)
  show "events c0 em \<Longrightarrow>
       injection_cmode f = injection_cmode c0 \<and> production_cmode f = production_cmode c0"
    using e1 by (simp add: f n4_def n3_def)
  assume d: "perf_size (perf_data c0) \<noteq> perf_size (perf_data pw)"
    and perf: "perf < perf_size (perf_data c0)" and p: "p < np"
  have pdf: "perf_data f = (perf_data c0)\<lparr>phase_rates :=
                       distribute_rates np (perf_size (perf_data c0))
                         (\<lambda>p. surface_rates pw ! p / real (num_open well))
                         (phase_rates (perf_data c0))\<rparr>"
    using d by (simp add: f n4_def pd3 sr3)
  have bound: "np * perf_size (perf_data c0) \<le> length (phase_rates (perf_data c0))"
    using nb d perf p unfolding bad_def pd3 by auto
  have "perf_size (perf_data f) = perf_size (perf_data c0)"
    by (simp add: pdf perf_size_def)
  moreover have "phase_rates (perf_data f) ! (np * perf + p)
                   = surface_rates pw ! p / real (num_open well)"
    using distribute_rates_nth [OF p bound, of _ perf] perf by (simp add: pdf)
  ultimately show "perf_size (perf_data f) = perf_size (perf_data c0)
       \<and> phase_rates (perf_data f) ! (np * perf + p) = surface_rates pw ! p / real (num_open well)"
    by simp
qed
lemma outcome_Done_state: "is_Done r \<Longrightarrow> r = Done (outcome_state r)"
  by (cases r) simp_all

lemma fresh_cmode:
  "isProducer well \<Longrightarrow>
     production_cmode (apply_status well (set_cmode well b)) = prod_cmode (productionControls well)"
  "\<not> isProducer well \<Longrightarrow>
     injection_cmode (apply_status well (set_cmode well b)) = inj_cmode (injectionControls well)"
  by (cases "getStatus well"; simp add: apply_status_def set_cmode_def shut_def stop_def open_well_def)+

text \<open>
  C3, as the code has it. After \<^verbatim>\<open>init\<close>, on the fresh path and on the carry-over path
  with differing connection counts, every locally visible connection of an OPEN well
  holds, for every phase, the well's surface rate of that phase divided by the number of
  open connections of the whole well (\<^verbatim>\<open>getConnections().num_open()\<close>), which under domain
  decomposition is not the number of locally visible connections.
\<close>

theorem init_connection_rates:
  assumes "init_timestep_frame init_timestep"
    and "init init_timestep try_assign event_mask cellPressures schedule wells_ecl
           parallel_well_info prevState well_perf_data this = Done st"
    and "w < length wells_ecl" and "getStatus (wells_ecl ! w) = OPEN"
    and "0 < num_open (wells_ecl ! w)"
    and "\<forall>prev_well. carries_over prevState (wells_ecl ! w) prev_well \<longrightarrow>
           perf_size (perf_data prev_well) \<noteq> length (well_perf_data ! w)"
    and "perf < length (well_perf_data ! w)" and "p < num_phases (phase_usage this)"
  shows "phase_rates (perf_data (wells st ! w)) ! (num_phases (phase_usage this) * perf + p)
           = surface_rates (wells st ! w) ! p / real (num_open (wells_ecl ! w))"
proof -
  let ?well = "wells_ecl ! w" and ?np = "num_phases (phase_usage this)"
  from init_structure [OF assms(2)] assms(3) obtain fresh a b where
    a: "single_well_init (phase_usage this) cellPressures ?well (well_perf_data ! w)
          (parallel_well_info ! w) = Done a"
    and b: "init_perf_rates ?np cellPressures (?well, well_perf_data ! w)
              (a\<lparr>events := recorded_events schedule ?well\<rparr>) = Done b"
    and c0: "fresh ! w = apply_status ?well (set_cmode ?well b)"
    and c: "carry_step init_timestep try_assign event_mask ?np prevState ?well (fresh ! w)
              = Done (wells st ! w)"
    by blast
  note fb = fresh_well_fields [OF a b]
  note fs = apply_status_fields [of ?well b]
  have prod: "producer (fresh ! w) = isProducer ?well" using fb(2) fs(1) c0 by simp
  have sz: "perf_size (perf_data (fresh ! w)) = length (well_perf_data ! w)"
    using fb(7) fs(6) c0 by simp
  show ?thesis
  proof (cases "\<exists>prev_well. carries_over prevState ?well prev_well")
    case True
    then obtain pw where pw: "carries_over prevState ?well pw" ..
    with assms(6) have d: "perf_size (perf_data (fresh ! w)) \<noteq> perf_size (perf_data pw)"
      using sz by auto
    have perf': "perf < perf_size (perf_data (fresh ! w))" using assms(7) sz by simp
    from carry_step_copy(7) [OF assms(1) prod pw c d perf' assms(8)]
      carry_step_copy(1) [OF assms(1) prod pw c]
    show ?thesis by simp
  next
    case False
    then have no: "\<forall>prev_well. \<not> carries_over prevState ?well prev_well" by blast
    from carry_step_none [OF assms(1) prod no c] obtain x y z where
      f: "wells st ! w = (fresh ! w)\<lparr>bhp := x, thp := y, temperature := z\<rparr>" by blast
    have "phase_rates (perf_data (wells st ! w)) = phase_rates (perf_data b)"
      using f c0 fs(6) by simp
    moreover have "surface_rates (wells st ! w) = surface_rates a"
      using f c0 fs(8) [OF assms(4)] fb(1) by simp
    ultimately show ?thesis using fb(10) [OF assms(4,7,8)] by simp
  qed
qed

theorem init_connection_rates_witness:
  "phase_rates (perf_data (wells carried_state ! 0)) ! (3 * 5 + 1) = - 800 / 6"
proof -
  have frame: "init_timestep_frame init_timestep_1"
    by (simp add: init_timestep_frame_def init_timestep_1_def)
  have "is_Done (init init_timestep_1 try_assign_1 1 [10000000] schedule_1 [producer_6]
                   [well_info_1] (Some prev_state_4) [perforations_6] empty_state)"
    by code_simp
  then have run: "init init_timestep_1 try_assign_1 1 [10000000] schedule_1 [producer_6]
                   [well_info_1] (Some prev_state_4) [perforations_6] empty_state
                  = Done carried_state"
    unfolding carried_state_def by (rule outcome_Done_state)
  have w: "0 < length [producer_6]" by simp
  have o: "getStatus ([producer_6] ! 0) = OPEN"
    by (simp add: producer_6_def producer_orat_def injector_grup_def)
  have n: "0 < num_open ([producer_6] ! 0)" by (simp add: producer_6_def)
  have pof: "prev_well_of (Some prev_state_4) ([producer_6] ! 0) = Some prev_well_4"
    by (simp add: prev_well_of_def prev_state_4_def prev_well_4_def SingleWellState_new_def
        producer_6_def producer_orat_def injector_grup_def)
  have sz4: "perf_size (perf_data prev_well_4) = 4" by code_simp
  have l6: "length ([perforations_6] ! 0) = 6" by code_simp
  have d: "\<forall>prev_well. carries_over (Some prev_state_4) ([producer_6] ! 0) prev_well \<longrightarrow>
             perf_size (perf_data prev_well) \<noteq> length ([perforations_6] ! 0)"
    using pof sz4 l6 by (auto simp add: carries_over_def)
  have perf: "5 < length ([perforations_6] ! 0)" using l6 by simp
  have p: "1 < num_phases (phase_usage empty_state)" by (simp add: empty_state_def pu_3_def)
  have np: "num_phases (phase_usage empty_state) = 3" by (simp add: empty_state_def pu_3_def)
  have sr: "surface_rates (wells carried_state ! 0) ! 1 = - 800" by code_simp
  have no: "real (num_open ([producer_6] ! 0)) = 6" by (simp add: producer_6_def)
  from init_connection_rates [OF frame run w o n d perf p]
  show ?thesis unfolding np sr no by simp
qed

text \<open>
  Counterexample to C3 as stated: an open producer with oil rate target 100 and two open
  connections, one of them visible to this process. The one local connection gets -50,
  the rate divided by 2, not the rate divided by the 1 locally visible connection.
\<close>

theorem init_connection_rates_counterexample:
  "getStatus producer_2 = OPEN
   \<and> perf_size (perf_data (wells local_view_state ! 0)) = 1
   \<and> surface_rates (wells local_view_state ! 0) ! 1 = - 100
   \<and> phase_rates (perf_data (wells local_view_state ! 0)) ! (3 * 0 + 1) = - 50"
  by code_simp

text \<open>
  C6. Let \<open>fresh\<close> be the state \<^verbatim>\<open>init\<close> builds without previous state. With a previous
  container that has the well by name, for a well that is not SHUT, was not SHUT and kept
  its role, \<^verbatim>\<open>init\<close> copies the previous surface rates, reservoir rates, well potentials
  and productivity index; the previous control modes are taken over when no
  control-changing event is recorded for the well at this step, and the control modes
  are the freshly set ones when one is. Every other well (newly SHUT, previously SHUT,
  role changed, or not in the previous container) keeps the rates, potentials,
  productivity index and control modes of the fresh state.
\<close>

theorem init_carry_over:
  assumes "init_timestep_frame init_timestep"
    and "init init_timestep try_assign event_mask cellPressures schedule wells_ecl
           parallel_well_info prevState well_perf_data this = Done st"
    and "w < length wells_ecl"
  shows "\<exists>fresh.
           init init_timestep try_assign event_mask cellPressures schedule wells_ecl
             parallel_well_info None well_perf_data this = Done fresh
         \<and> (isProducer (wells_ecl ! w) \<longrightarrow>
              production_cmode (wells fresh ! w) = prod_cmode (productionControls (wells_ecl ! w)))
         \<and> (\<not> isProducer (wells_ecl ! w) \<longrightarrow>
              injection_cmode (wells fresh ! w) = inj_cmode (injectionControls (wells_ecl ! w)))
         \<and> (\<forall>prev_well. carries_over prevState (wells_ecl ! w) prev_well \<longrightarrow>
              surface_rates (wells st ! w) = surface_rates prev_well
              \<and> reservoir_rates (wells st ! w) = reservoir_rates prev_well
              \<and> well_potentials (wells st ! w) = well_potentials prev_well
              \<and> productivity_index (wells st ! w) = productivity_index prev_well
              \<and> (if recorded_events schedule (wells_ecl ! w) event_mask
                  then injection_cmode (wells st ! w) = injection_cmode (wells fresh ! w)
                       \<and> production_cmode (wells st ! w) = production_cmode (wells fresh ! w)
                  else injection_cmode (wells st ! w) = injection_cmode prev_well
                       \<and> production_cmode (wells st ! w) = production_cmode prev_well))
         \<and> ((\<forall>prev_well. \<not> carries_over prevState (wells_ecl ! w) prev_well) \<longrightarrow>
              surface_rates (wells st ! w) = surface_rates (wells fresh ! w)
              \<and> reservoir_rates (wells st ! w) = reservoir_rates (wells fresh ! w)
              \<and> well_potentials (wells st ! w) = well_potentials (wells fresh ! w)
              \<and> productivity_index (wells st ! w) = productivity_index (wells fresh ! w)
              \<and> injection_cmode (wells st ! w) = injection_cmode (wells fresh ! w)
              \<and> production_cmode (wells st ! w) = production_cmode (wells fresh ! w))"
proof -
  let ?well = "wells_ecl ! w" and ?np = "num_phases (phase_usage this)"
  from init_structure [OF assms(2)] assms(3) obtain fresh a b where
    a: "single_well_init (phase_usage this) cellPressures ?well (well_perf_data ! w)
          (parallel_well_info ! w) = Done a"
    and b: "init_perf_rates ?np cellPressures (?well, well_perf_data ! w)
              (a\<lparr>events := recorded_events schedule ?well\<rparr>) = Done b"
    and c0: "fresh ! w = apply_status ?well (set_cmode ?well b)"
    and c: "carry_step init_timestep try_assign event_mask ?np prevState ?well (fresh ! w)
              = Done (wells st ! w)"
    and none: "init init_timestep try_assign event_mask cellPressures schedule wells_ecl
                 parallel_well_info None well_perf_data this = Done (st\<lparr>wells := fresh\<rparr>)"
    by blast
  note fb = fresh_well_fields [OF a b]
  note fs = apply_status_fields [of ?well b]
  have prod: "producer (fresh ! w) = isProducer ?well" using fb(2) fs(1) c0 by simp
  have ev: "events (fresh ! w) = recorded_events schedule ?well" using fb(3) fs(2) c0 by simp
  have wf: "wells (st\<lparr>wells := fresh\<rparr>) ! w = fresh ! w" by simp
  have cm1: "isProducer ?well \<longrightarrow>
              production_cmode (wells (st\<lparr>wells := fresh\<rparr>) ! w) = prod_cmode (productionControls ?well)"
    using fresh_cmode(1) [of ?well b] c0 by simp
  have cm2: "\<not> isProducer ?well \<longrightarrow>
              injection_cmode (wells (st\<lparr>wells := fresh\<rparr>) ! w) = inj_cmode (injectionControls ?well)"
    using fresh_cmode(2) [of ?well b] c0 by simp
  have copy: "\<forall>prev_well. carries_over prevState ?well prev_well \<longrightarrow>
              surface_rates (wells st ! w) = surface_rates prev_well
              \<and> reservoir_rates (wells st ! w) = reservoir_rates prev_well
              \<and> well_potentials (wells st ! w) = well_potentials prev_well
              \<and> productivity_index (wells st ! w) = productivity_index prev_well
              \<and> (if recorded_events schedule ?well event_mask
                  then injection_cmode (wells st ! w) = injection_cmode (wells (st\<lparr>wells := fresh\<rparr>) ! w)
                       \<and> production_cmode (wells st ! w) = production_cmode (wells (st\<lparr>wells := fresh\<rparr>) ! w)
                  else injection_cmode (wells st ! w) = injection_cmode prev_well
                       \<and> production_cmode (wells st ! w) = production_cmode prev_well)"
  proof (intro allI impI)
    fix pw assume pw: "carries_over prevState ?well pw"
    note k = carry_step_copy [OF assms(1) prod pw c]
    show "surface_rates (wells st ! w) = surface_rates pw
              \<and> reservoir_rates (wells st ! w) = reservoir_rates pw
              \<and> well_potentials (wells st ! w) = well_potentials pw
              \<and> productivity_index (wells st ! w) = productivity_index pw
              \<and> (if recorded_events schedule ?well event_mask
                  then injection_cmode (wells st ! w) = injection_cmode (wells (st\<lparr>wells := fresh\<rparr>) ! w)
                       \<and> production_cmode (wells st ! w) = production_cmode (wells (st\<lparr>wells := fresh\<rparr>) ! w)
                  else injection_cmode (wells st ! w) = injection_cmode pw
                       \<and> production_cmode (wells st ! w) = production_cmode pw)"
    proof (cases "recorded_events schedule ?well event_mask")
      case True
      then have "events (fresh ! w) event_mask" using ev by simp
      from k(6) [OF this] k(1-4) True show ?thesis by (simp add: wf)
    next
      case False
      then have "\<not> events (fresh ! w) event_mask" using ev by simp
      from k(5) [OF this] k(1-4) False show ?thesis by simp
    qed
  qed
  have keep: "(\<forall>prev_well. \<not> carries_over prevState ?well prev_well) \<longrightarrow>
              surface_rates (wells st ! w) = surface_rates (wells (st\<lparr>wells := fresh\<rparr>) ! w)
              \<and> reservoir_rates (wells st ! w) = reservoir_rates (wells (st\<lparr>wells := fresh\<rparr>) ! w)
              \<and> well_potentials (wells st ! w) = well_potentials (wells (st\<lparr>wells := fresh\<rparr>) ! w)
              \<and> productivity_index (wells st ! w) = productivity_index (wells (st\<lparr>wells := fresh\<rparr>) ! w)
              \<and> injection_cmode (wells st ! w) = injection_cmode (wells (st\<lparr>wells := fresh\<rparr>) ! w)
              \<and> production_cmode (wells st ! w) = production_cmode (wells (st\<lparr>wells := fresh\<rparr>) ! w)"
  proof
    assume no: "\<forall>prev_well. \<not> carries_over prevState ?well prev_well"
    from carry_step_none [OF assms(1) prod no c] obtain x y z where
      f: "wells st ! w = (fresh ! w)\<lparr>bhp := x, thp := y, temperature := z\<rparr>" by blast
    show "surface_rates (wells st ! w) = surface_rates (wells (st\<lparr>wells := fresh\<rparr>) ! w)
              \<and> reservoir_rates (wells st ! w) = reservoir_rates (wells (st\<lparr>wells := fresh\<rparr>) ! w)
              \<and> well_potentials (wells st ! w) = well_potentials (wells (st\<lparr>wells := fresh\<rparr>) ! w)
              \<and> productivity_index (wells st ! w) = productivity_index (wells (st\<lparr>wells := fresh\<rparr>) ! w)
              \<and> injection_cmode (wells st ! w) = injection_cmode (wells (st\<lparr>wells := fresh\<rparr>) ! w)
              \<and> production_cmode (wells st ! w) = production_cmode (wells (st\<lparr>wells := fresh\<rparr>) ! w)"
      unfolding wf f by simp
  qed
  show ?thesis
    by (intro exI [of _ "st\<lparr>wells := fresh\<rparr>"] conjI)
       (fact none, fact cm1, fact cm2, fact copy, fact keep)
qed

theorem init_carry_over_witness:
  "surface_rates (wells carried_state ! 0) = [0, - 800, 0]
   \<and> reservoir_rates (wells carried_state ! 0) = [0, - 900, 0]
   \<and> well_potentials (wells carried_state ! 0) = [0, 1000, 0]
   \<and> productivity_index (wells carried_state ! 0) = [0, 2, 0]
   \<and> production_cmode (wells carried_state ! 0) = Producer_BHP"
proof -
  have frame: "init_timestep_frame init_timestep_1"
    by (simp add: init_timestep_frame_def init_timestep_1_def)
  have "is_Done (init init_timestep_1 try_assign_1 1 [10000000] schedule_1 [producer_6]
                   [well_info_1] (Some prev_state_4) [perforations_6] empty_state)"
    by code_simp
  then have run: "init init_timestep_1 try_assign_1 1 [10000000] schedule_1 [producer_6]
                   [well_info_1] (Some prev_state_4) [perforations_6] empty_state
                  = Done carried_state"
    unfolding carried_state_def by (rule outcome_Done_state)
  have w: "0 < length [producer_6]" by simp
  have pof: "prev_well_of (Some prev_state_4) ([producer_6] ! 0) = Some prev_well_4"
    by (simp add: prev_well_of_def prev_state_4_def prev_well_4_def SingleWellState_new_def
        producer_6_def producer_orat_def injector_grup_def)
  have co: "carries_over (Some prev_state_4) ([producer_6] ! 0) prev_well_4"
    unfolding carries_over_def pof
    by (simp add: prev_well_4_def SingleWellState_new_def producer_6_def producer_orat_def
        injector_grup_def)
  have ev: "\<not> recorded_events schedule_1 ([producer_6] ! 0) 1"
    by (simp add: recorded_events_def schedule_1_def)
  have prev: "surface_rates prev_well_4 = [0, - 800, 0]"
    "reservoir_rates prev_well_4 = [0, - 900, 0]" "well_potentials prev_well_4 = [0, 1000, 0]"
    "productivity_index prev_well_4 = [0, 2, 0]" "production_cmode prev_well_4 = Producer_BHP"
    by (simp_all add: prev_well_4_def)
  from init_carry_over [OF frame run w] co ev
  have "surface_rates (wells carried_state ! 0) = surface_rates prev_well_4
        \<and> reservoir_rates (wells carried_state ! 0) = reservoir_rates prev_well_4
        \<and> well_potentials (wells carried_state ! 0) = well_potentials prev_well_4
        \<and> productivity_index (wells carried_state ! 0) = productivity_index prev_well_4
        \<and> production_cmode (wells carried_state ! 0) = production_cmode prev_well_4"
    by auto
  then show ?thesis by (simp add: prev)
qed

lemma length_scale_gas: "length (scale_gas np g n r) = length r"
  unfolding scale_gas_def by (rule length_foldl_update)

lemma scale_gas_Suc:
  "scale_gas np g (Suc n) r =
     (scale_gas np g n r)[n * np + g := scale_gas np g n r ! (n * np + g) * 100]"
  by (simp add: scale_gas_def)

lemma scale_gas_index:
  assumes "g < np" and "perf * np + g = n * np + (g::nat)"
  shows "perf = n"
  using assms by (metis add_right_cancel mult_cancel2 not_less_zero)

lemma scale_gas_nth_aux:
  "g < np \<Longrightarrow> k < length r \<Longrightarrow>
   scale_gas np g n r ! k = (if \<exists>perf<n. k = perf * np + g then r ! k * 100 else r ! k)"
proof (induction n)
  case 0
  then show ?case by (simp add: scale_gas_def)
next
  case (Suc n)
  show ?case
  proof (cases "k = n * np + g")
    case True
    have no: "\<not> (\<exists>perf<n. k = perf * np + g)"
      using True scale_gas_index [OF Suc.prems(1)] by (metis less_irrefl)
    have a: "scale_gas np g n r ! k = r ! k"
      using Suc.IH [OF Suc.prems] no by simp
    have b: "\<exists>perf<Suc n. k = perf * np + g" using True by blast
    have "scale_gas np g (Suc n) r ! k = scale_gas np g n r ! k * 100"
      unfolding scale_gas_Suc True [symmetric]
      using Suc.prems(2) by (simp add: length_scale_gas)
    then show ?thesis using a b by simp
  next
    case False
    have "(\<exists>perf<Suc n. k = perf * np + g) \<longleftrightarrow> (\<exists>perf<n. k = perf * np + g)"
      using False less_Suc_eq by auto
    then show ?thesis using False Suc by (simp add: scale_gas_Suc)
  qed
qed

lemma scale_gas_nth:
  assumes "g < np" and "p < np" and "np * perf + p < length r"
  shows "scale_gas np g n r ! (np * perf + p)
           = (if p = g \<and> perf < n then r ! (np * perf + p) * 100 else r ! (np * perf + p))"
proof -
  have "(\<exists>perf'<n. np * perf + p = perf' * np + g) \<longleftrightarrow> p = g \<and> perf < n"
  proof
    assume "\<exists>perf'<n. np * perf + p = perf' * np + g"
    then obtain perf' where a: "perf' < n" and b: "np * perf + p = np * perf' + g"
      by (auto simp add: mult.commute)
    have "np * perf \<le> np * perf' + g \<and> np * perf' + g < np * perf + np"
      using b assms(2) by linarith
    then have "perf' = perf" using block_index [OF assms(1), of perf perf'] by simp
    with a b show "p = g \<and> perf < n" by simp
  next
    assume "p = g \<and> perf < n"
    then show "\<exists>perf'<n. np * perf + p = perf' * np + g" by (auto simp add: mult.commute)
  qed
  then show ?thesis using scale_gas_nth_aux [OF assms(1,3), of n] by simp
qed

lemma segment_perforations_loop_count:
  "segment_perforations_loop segment_set cs sp n0 = Inr (sp', n) \<Longrightarrow>
   n = n0 + length (filter (\<lambda>c. conn_state c = Connection_OPEN) cs)"
proof (induction cs arbitrary: sp n0)
  case Nil
  then show ?case by simp
next
  case (Cons c cs)
  show ?case
  proof (cases "conn_state c = Connection_OPEN")
    case True
    let ?i = "segmentNumberToIndex segment_set (conn_segment c)"
    from Cons.prems True have lt: "?i < length sp"
      by (simp add: Let_def split: if_splits)
    with Cons.prems True have
      "segment_perforations_loop segment_set cs (sp[?i := sp ! ?i @ [n0]]) (Suc n0) = Inr (sp', n)"
      by (simp add: Let_def)
    from Cons.IH [OF this] True show ?thesis by simp
  next
    case False
    with Cons.prems have "segment_perforations_loop segment_set cs sp n0 = Inr (sp', n)"
      by simp
    from Cons.IH [OF this] False show ?thesis by simp
  qed
qed

lemma initWellStateMSWell_well_Done:
  assumes "initWellStateMSWell_well depth pu well_ecl ws = Some (Done ws')"
    and "isMultiSegment well_ecl"
  shows "ws' = ws\<lparr>perf_data := (perf_data ws)
                    \<lparr>phase_rates :=
                       (if phase_used pu Gas
                        then scale_gas (num_phases pu) (phase_pos pu Gas)
                               (num_active_perforations well_ecl) (phase_rates (perf_data ws))
                        else phase_rates (perf_data ws))\<rparr>,
                  segments := segments ws'\<rparr>
         \<and> (phase_used pu Gas \<longrightarrow> 0 < num_active_perforations well_ecl \<longrightarrow>
              (num_active_perforations well_ecl - 1) * num_phases pu + phase_pos pu Gas
                < length (phase_rates (perf_data ws)))"
proof -
  let ?np = "num_phases pu" and ?set = "getSegments well_ecl"
  let ?nseg = "length (segment_list ?set)"
  let ?ws1 = "ws\<lparr>segments := SegmentState_new ?np ?nseg\<rparr>"
  obtain sp n where sp:
    "segment_perforations_loop ?set (getConnections well_ecl) (replicate ?nseg []) 0 = Inr (sp, n)"
    using assms by (auto simp add: initWellStateMSWell_well_def Let_def split: sum.splits)
  from segment_perforations_loop_count [OF sp]
  have n: "n = num_active_perforations well_ecl" by (simp add: num_active_perforations_def)
  obtain si where si:
    "segment_inlets_loop ?set (segment_list ?set) (replicate ?nseg []) = Inr si"
    using assms sp by (auto simp add: initWellStateMSWell_well_def Let_def split: sum.splits)
  define ws2 where "ws2 =
    (if phase_used pu Gas
     then ?ws1\<lparr>perf_data := (perf_data ?ws1)
            \<lparr>phase_rates := scale_gas ?np (phase_pos pu Gas) n (phase_rates (perf_data ?ws1))\<rparr>\<rparr>
     else ?ws1)"
  have ws2: "ws2 = ws\<lparr>perf_data := (perf_data ws)
                    \<lparr>phase_rates :=
                       (if phase_used pu Gas
                        then scale_gas ?np (phase_pos pu Gas) n (phase_rates (perf_data ws))
                        else phase_rates (perf_data ws))\<rparr>,
                   segments := segments ws2\<rparr>"
    by (simp add: ws2_def)
  have nb: "\<not> (phase_used pu Gas \<and> 0 < n
               \<and> \<not> (n - 1) * ?np + phase_pos pu Gas < length (phase_rates (perf_data ?ws1)))"
    using assms by (simp add: initWellStateMSWell_well_def Let_def sp si split: if_splits)
  have unfold: "initWellStateMSWell_well depth pu well_ecl ws =
    (case calculateSegmentRates depth si sp (phase_rates (perf_data ws2)) ?np 0
            (seg_rates (segments ws2)) of
       None \<Rightarrow> None
     | Some (Inl e) \<Rightarrow> Some (Threw e ws2)
     | Some (Inr segment_rates) \<Rightarrow>
         let ws3 = ws2\<lparr>segments := (segments ws2)\<lparr>seg_rates := segment_rates\<rparr>\<rparr>
         in if \<not> 0 < length (seg_pressure (segments ws3))
            then Some (Threw OutOfBounds ws3)
            else
              case segment_pressure_loop ?set sp (pressure (perf_data ws3)) [1..<?nseg]
                     ((seg_pressure (segments ws3))[0 := bhp ws3]) of
                Inl e \<Rightarrow> Some (Threw e ws3)
              | Inr segment_pressure \<Rightarrow>
                  Some (Done (ws3\<lparr>segments :=
                          (segments ws3)\<lparr>seg_pressure := segment_pressure\<rparr>\<rparr>)))"
    using nb assms(2) unfolding ws2_def
    by (cases "phase_used pu Gas"; cases "0 < n";
        simp add: initWellStateMSWell_well_def Let_def sp si
          cong: option.case_cong sum.case_cong if_cong)
  from assms(1) obtain sr where
    sr: "calculateSegmentRates depth si sp (phase_rates (perf_data ws2)) ?np 0
            (seg_rates (segments ws2)) = Some (Inr sr)"
    unfolding unfold by (auto split: option.splits sum.splits)
  define ws3 where "ws3 = ws2\<lparr>segments := (segments ws2)\<lparr>seg_rates := sr\<rparr>\<rparr>"
  from assms(1) obtain sprs where "ws' = ws3\<lparr>segments := (segments ws3)\<lparr>seg_pressure := sprs\<rparr>\<rparr>"
    unfolding unfold sr ws3_def
    by (auto simp add: Let_def split: if_splits sum.splits)
  then have "ws' = ws2\<lparr>segments := segments ws'\<rparr>" by (simp add: ws3_def)
  then have "ws' = ws\<lparr>perf_data := (perf_data ws)
                    \<lparr>phase_rates :=
                       (if phase_used pu Gas
                        then scale_gas ?np (phase_pos pu Gas) n (phase_rates (perf_data ws))
                        else phase_rates (perf_data ws))\<rparr>,
                   segments := segments ws2\<rparr>\<lparr>segments := segments ws'\<rparr>"
    using ws2 by simp
  then show ?thesis using nb unfolding n by auto
qed

lemma ms_well_loop_Done:
  "ms_well_loop body es ws = Some (Done ws') \<Longrightarrow>
   length es \<le> length ws \<and> length ws' = length ws
   \<and> (\<forall>i<length es. body (es ! i) (ws ! i) = Some (Done (ws' ! i)))"
proof (induction body es ws arbitrary: ws' rule: ms_well_loop.induct)
  case (1 body ws)
  then show ?case by simp
next
  case (2 body e es)
  then show ?case by simp
next
  case (3 body e es w ws)
  from "3.prems" obtain w' where w': "body e w = Some (Done w')"
    by (auto split: option.splits outcome.splits)
  from "3.prems" w' obtain ws'' where ws'': "ms_well_loop body es ws = Some (Done ws'')"
    and eq: "ws' = w' # ws''"
    by (auto split: option.splits outcome.splits)
  note IH = "3.IH" [OF w' refl ws'']
  have "\<forall>i<length (e # es). body ((e # es) ! i) ((w # ws) ! i) = Some (Done (ws' ! i))"
  proof (intro allI impI)
    fix i assume "i < length (e # es)"
    then show "body ((e # es) ! i) ((w # ws) ! i) = Some (Done (ws' ! i))"
      using IH w' eq by (cases i) simp_all
  qed
  then show ?case using IH eq by simp
qed

lemma copy_segments_frame:
  "copy_segments prev well ws = ws\<lparr>segments := segments (copy_segments prev well ws)\<rparr>"
  by (simp add: copy_segments_def split: option.splits)

lemma initWellStateMSWell_Done:
  assumes "initWellStateMSWell depth wells_ecl prev_well_state this = Some (Done st)"
    and "w < length wells_ecl"
  shows "\<exists>ws'. initWellStateMSWell_well depth (phase_usage this) (wells_ecl ! w) (wells this ! w)
                  = Some (Done ws')
               \<and> wells st ! w = ws'\<lparr>segments := segments (wells st ! w)\<rparr>"
    and "phase_usage st = phase_usage this"
    and "w < length (wells st)"
proof -
  from assms(2) have ne: "wells_ecl \<noteq> []" by auto
  from assms(1) ne obtain ws where
    loop: "ms_well_loop (initWellStateMSWell_well depth (phase_usage this)) wells_ecl (wells this)
             = Some (Done ws)"
    and st: "st = this\<lparr>wells := (case prev_well_state of None \<Rightarrow> ws
                          | Some prev \<Rightarrow> map2 (copy_segments prev) wells_ecl ws)\<rparr>"
    by (auto simp add: initWellStateMSWell_def split: option.splits outcome.splits)
  note L = ms_well_loop_Done [OF loop]
  from L assms(2) have b: "initWellStateMSWell_well depth (phase_usage this) (wells_ecl ! w)
                             (wells this ! w) = Some (Done (ws ! w))"
    by blast
  from L assms(2) have lw: "w < length ws" by simp
  show "phase_usage st = phase_usage this" using st by simp
  show "w < length (wells st)" using st lw assms(2) by (simp split: option.splits)
  have "wells st ! w = (ws ! w)\<lparr>segments := segments (wells st ! w)\<rparr>"
  proof (cases prev_well_state)
    case None
    then show ?thesis using st by simp
  next
    case (Some prev)
    then have "wells st ! w = copy_segments prev (wells_ecl ! w) (ws ! w)"
      using st lw assms(2) by simp
    then show ?thesis using copy_segments_frame [of prev "wells_ecl ! w" "ws ! w"] by simp
  qed
  with b show "\<exists>ws'. initWellStateMSWell_well depth (phase_usage this) (wells_ecl ! w)
                        (wells this ! w) = Some (Done ws')
                  \<and> wells st ! w = ws'\<lparr>segments := segments (wells st ! w)\<rparr>"
    by blast
qed

lemma phase_keys_Inr:
  assumes "phase_keys pu kw ko kg = Inr ks"
  shows "length ks = num_phases pu"
    and "phase_used pu Gas \<Longrightarrow> phase_pos pu Gas < num_phases pu \<and> ks ! phase_pos pu Gas = Some kg"
    and "i < num_phases pu \<Longrightarrow> ks ! i = Some k \<Longrightarrow> k = kw \<or> k = ko \<or> k = kg"
    and "i < num_phases pu \<Longrightarrow> ks ! i = Some kg \<Longrightarrow> kg \<noteq> kw \<Longrightarrow> kg \<noteq> ko \<Longrightarrow>
           i = phase_pos pu Gas"
proof -
  let ?np = "num_phases pu"
  define k1 where "k1 = (if phase_used pu Water
     then (replicate ?np None)[phase_pos pu Water := Some kw] else replicate ?np None)"
  define k2 where "k2 = (if phase_used pu Oil then k1[phase_pos pu Oil := Some ko] else k1)"
  have w: "phase_used pu Water \<Longrightarrow> phase_pos pu Water < ?np"
    using assms by (simp add: phase_keys_def put_at_def split: if_splits)
  have o: "phase_used pu Oil \<Longrightarrow> phase_pos pu Oil < ?np"
    using assms by (auto simp add: phase_keys_def put_at_def split: if_splits sum.splits)
  have g: "phase_used pu Gas \<Longrightarrow> phase_pos pu Gas < ?np"
    using assms by (auto simp add: phase_keys_def put_at_def split: if_splits sum.splits)
  have ks: "ks = (if phase_used pu Gas then k2[phase_pos pu Gas := Some kg] else k2)"
    using assms w o g
    by (auto simp add: phase_keys_def put_at_def k1_def k2_def split: if_splits sum.splits)
  have l1: "length k1 = ?np" by (simp add: k1_def)
  have l2: "length k2 = ?np" by (simp add: k2_def l1)
  show "length ks = ?np" by (simp add: ks l2)
  show "phase_used pu Gas \<Longrightarrow> phase_pos pu Gas < ?np \<and> ks ! phase_pos pu Gas = Some kg"
    using g by (simp add: ks l2)
  have e1: "\<And>j k. j < ?np \<Longrightarrow> k1 ! j = Some k \<Longrightarrow> k = kw"
    using w by (auto simp add: k1_def nth_list_update split: if_splits)
  have e2: "\<And>j k. j < ?np \<Longrightarrow> k2 ! j = Some k \<Longrightarrow> k = kw \<or> k = ko"
    using e1 o by (auto simp add: k2_def l1 nth_list_update split: if_splits)
  show "i < ?np \<Longrightarrow> ks ! i = Some k \<Longrightarrow> k = kw \<or> k = ko \<or> k = kg"
    using e2 [of i k] g by (auto simp add: ks l2 nth_list_update split: if_splits)
  show "i < ?np \<Longrightarrow> ks ! i = Some kg \<Longrightarrow> kg \<noteq> kw \<Longrightarrow> kg \<noteq> ko \<Longrightarrow> i = phase_pos pu Gas"
    using e2 [of i kg] g by (auto simp add: ks l2 nth_list_update split: if_splits)
qed

lemma foldl_keys:
  "a g = k \<Longrightarrow> \<forall>i<n. i \<noteq> g \<longrightarrow> a i \<noteq> k \<Longrightarrow> \<forall>i<n. b i \<noteq> k \<Longrightarrow>
   foldl (\<lambda>m i. (m(a i \<mapsto> x i))(b i \<mapsto> y i)) m0 [0..<n] k
     = (if g < n then Some (x g) else m0 k)"
proof (induction n)
  case 0
  then show ?case by simp
next
  case (Suc n)
  define F where "F = foldl (\<lambda>m i. (m(a i \<mapsto> x i))(b i \<mapsto> y i)) m0 [0..<n]"
  have p2: "\<forall>i<n. i \<noteq> g \<longrightarrow> a i \<noteq> k" using Suc.prems(2) by simp
  have p3: "\<forall>i<n. b i \<noteq> k" using Suc.prems(3) by simp
  have IH: "F k = (if g < n then Some (x g) else m0 k)"
    unfolding F_def by (rule Suc.IH [OF Suc.prems(1) p2 p3])
  have step: "foldl (\<lambda>m i. (m(a i \<mapsto> x i))(b i \<mapsto> y i)) m0 [0..<Suc n]
                = (F(a n \<mapsto> x n))(b n \<mapsto> y n)"
    by (simp add: F_def)
  have bn: "b n \<noteq> k" using Suc.prems(3) by simp
  show ?case
  proof (cases "n = g")
    case True
    then show ?thesis unfolding step using bn Suc.prems(1) by simp
  next
    case False
    then have "a n \<noteq> k" using Suc.prems(2) by simp
    then show ?thesis unfolding step using bn IH False by (simp add: less_Suc_eq)
  qed
qed

lemma connection_rates_gas:
  assumes "phase_keys pu wat oil gas = Inr phs"
    and "phase_keys pu productivity_index_water productivity_index_oil productivity_index_gas
           = Inr pis"
    and "\<forall>i<num_phases pu. phs ! i \<noteq> None \<and> pis ! i \<noteq> None"
    and "phase_used pu Gas"
  shows "connection_rates pu pdata phs pis local_comp_index rates0 gas
           = Some (phase_rates pdata ! (num_phases pu * local_comp_index + phase_pos pu Gas))"
proof -
  let ?np = "num_phases pu" and ?g = "phase_pos pu Gas"
  note P = phase_keys_Inr [OF assms(1)]
  note Q = phase_keys_Inr [OF assms(2)]
  have g: "?g < ?np" and pg: "the (phs ! ?g) = gas" using P(2) [OF assms(4)] by simp_all
  have a: "\<forall>i<?np. i \<noteq> ?g \<longrightarrow> the (phs ! i) \<noteq> gas"
  proof (intro allI impI)
    fix i assume i: "i < ?np" "i \<noteq> ?g"
    with assms(3) obtain k where k: "phs ! i = Some k" by auto
    then have "k \<noteq> gas" using P(4) [of i] i by auto
    then show "the (phs ! i) \<noteq> gas" using k by simp
  qed
  have b: "\<forall>i<?np. the (pis ! i) \<noteq> gas"
  proof (intro allI impI)
    fix i assume i: "i < ?np"
    with assms(3) obtain k where k: "pis ! i = Some k" by auto
    then have "k \<noteq> gas" using Q(3) [OF i k] by auto
    then show "the (pis ! i) \<noteq> gas" using k by simp
  qed
  from foldl_keys [where a = "\<lambda>i. the (phs ! i)" and b = "\<lambda>i. the (pis ! i)", OF pg a b]
  have "foldl (\<lambda>m i. (m(the (phs ! i) \<mapsto> phase_rates pdata ! (?np * local_comp_index + i)))
                              (the (pis ! i) \<mapsto> prod_index pdata ! i))
                 rates0 [0..<?np] gas = Some (phase_rates pdata ! (?np * local_comp_index + ?g))"
    using g by simp
  then show ?thesis by (simp add: connection_rates_def Let_def)
qed

lemma reportConnections_gas:
  assumes "reportConnections connections pu well_index globalCellIdxMap this = Inr conns"
    and "phase_used pu Gas"
    and "i < perf_size (perf_data (wells this ! well_index))"
  shows "conn_rates (conns ! i) gas
           = Some (phase_rates (perf_data (wells this ! well_index))
                     ! (num_phases pu * i + phase_pos pu Gas))"
    and "length conns = perf_size (perf_data (wells this ! well_index))"
proof -
  let ?pd = "perf_data (wells this ! well_index)"
  let ?n = "perf_size ?pd"
  from assms(1) obtain phs where phs: "phase_keys pu wat oil gas = Inr phs"
    by (auto simp add: reportConnections_def Let_def split: if_splits sum.splits)
  from assms(1) phs obtain pis where
    pis: "phase_keys pu productivity_index_water productivity_index_oil productivity_index_gas
            = Inr pis"
    by (auto simp add: reportConnections_def Let_def split: if_splits sum.splits)
  have pos: "0 < ?n" using assms(3) by simp
  from assms(1) phs pis pos have ok: "\<forall>i<num_phases pu. phs ! i \<noteq> None \<and> pis ! i \<noteq> None"
    by (simp add: reportConnections_def Let_def split: if_splits)
  from assms(1) phs pis pos have conns:
    "conns = map (\<lambda>i.
        (resize ?n empty_connection connections ! i)
          \<lparr>conn_index := globalCellIdxMap ! (cell_index ?pd ! i),
           conn_pressure := pressure ?pd ! i,
           conn_reservoir_rate := rates ?pd ! i,
           conn_trans_factor := connection_transmissibility_factor ?pd ! i,
           conn_rates := connection_rates pu ?pd phs pis i
                           (conn_rates (resize ?n empty_connection connections ! i))\<rparr>)
      [0..<?n]"
    by (simp add: reportConnections_def Let_def split: if_splits)
  show "length conns = ?n" by (simp add: conns)
  show "conn_rates (conns ! i) gas
          = Some (phase_rates ?pd ! (num_phases pu * i + phase_pos pu Gas))"
    using assms(3) connection_rates_gas [OF phs pis ok assms(2)] by (simp add: conns)
qed

lemma returns_Done_state:
  "(case r of Some (Done x) \<Rightarrow> True | _ \<Rightarrow> False) \<Longrightarrow> r = Some (Done (outcome_state (the r)))"
  by (cases r) (auto split: outcome.splits)

subsection \<open>initWellStateMSWell: it returns on well-formed wells\<close>

lemma segment_perforations_loop_ok:
  "\<forall>c \<in> set cs. conn_state c = Connection_OPEN \<longrightarrow>
      segmentNumberToIndex segment_set (conn_segment c) < length sp0 \<Longrightarrow>
   \<forall>l \<in> set sp0. \<forall>k \<in> set l. k < n0 \<Longrightarrow>
   \<exists>sp n. segment_perforations_loop segment_set cs sp0 n0 = Inr (sp, n)
          \<and> length sp = length sp0 \<and> (\<forall>l \<in> set sp. \<forall>k \<in> set l. k < n)"
proof (induction cs arbitrary: sp0 n0)
  case Nil
  then show ?case by simp
next
  case (Cons c cs)
  have rest: "\<forall>c \<in> set cs. conn_state c = Connection_OPEN \<longrightarrow>
      segmentNumberToIndex segment_set (conn_segment c) < length sp0"
    using Cons.prems(1) by simp
  show ?case
  proof (cases "conn_state c = Connection_OPEN")
    case True
    let ?i = "segmentNumberToIndex segment_set (conn_segment c)"
    let ?sp1 = "sp0[?i := sp0 ! ?i @ [n0]]"
    have lt: "?i < length sp0" using Cons.prems(1) True by simp
    have r1: "\<forall>c \<in> set cs. conn_state c = Connection_OPEN \<longrightarrow>
      segmentNumberToIndex segment_set (conn_segment c) < length ?sp1"
      using rest by simp
    have e1: "\<forall>l \<in> set ?sp1. \<forall>k \<in> set l. k < Suc n0"
    proof (intro ballI)
      fix l k assume l: "l \<in> set ?sp1" and k: "k \<in> set l"
      from l have "l = sp0 ! ?i @ [n0] \<or> l \<in> set sp0"
        using set_update_subset_insert [of sp0 ?i "sp0 ! ?i @ [n0]"] by auto
      then show "k < Suc n0"
      proof
        assume "l = sp0 ! ?i @ [n0]"
        with k have "k \<in> set (sp0 ! ?i) \<or> k = n0" by auto
        moreover have "sp0 ! ?i \<in> set sp0" using lt by simp
        ultimately show ?thesis using Cons.prems(2) by (auto simp add: less_Suc_eq)
      next
        assume "l \<in> set sp0"
        with k Cons.prems(2) show ?thesis by (auto simp add: less_Suc_eq)
      qed
    qed
    from Cons.IH [OF r1 e1] obtain sp n where
      "segment_perforations_loop segment_set cs ?sp1 (Suc n0) = Inr (sp, n)"
      "length sp = length ?sp1" "\<forall>l \<in> set sp. \<forall>k \<in> set l. k < n"
      by blast
    then show ?thesis using True lt by (simp add: Let_def)
  next
    case False
    from Cons.IH [OF rest Cons.prems(2)] show ?thesis using False by simp
  qed
qed

lemma segment_inlets_loop_ok:
  "\<forall>seg \<in> set segs. 0 < outletSegment seg \<longrightarrow>
      segmentNumberToIndex segment_set (outletSegment seg) < length si0
      \<and> segmentNumberToIndex segment_set (segmentNumber seg) < N \<Longrightarrow>
   \<forall>l \<in> set si0. \<forall>i \<in> set l. i < N \<Longrightarrow>
   \<exists>si. segment_inlets_loop segment_set segs si0 = Inr si
        \<and> length si = length si0 \<and> (\<forall>l \<in> set si. \<forall>i \<in> set l. i < N)"
proof (induction segs arbitrary: si0)
  case Nil
  then show ?case by simp
next
  case (Cons seg segs)
  have rest: "\<forall>seg \<in> set segs. 0 < outletSegment seg \<longrightarrow>
      segmentNumberToIndex segment_set (outletSegment seg) < length si0
      \<and> segmentNumberToIndex segment_set (segmentNumber seg) < N"
    using Cons.prems(1) by simp
  show ?case
  proof (cases "0 < outletSegment seg")
    case True
    let ?o = "segmentNumberToIndex segment_set (outletSegment seg)"
    let ?s = "segmentNumberToIndex segment_set (segmentNumber seg)"
    let ?si1 = "si0[?o := si0 ! ?o @ [?s]]"
    have lt: "?o < length si0" and sN: "?s < N" using Cons.prems(1) True by simp_all
    have r1: "\<forall>seg \<in> set segs. 0 < outletSegment seg \<longrightarrow>
      segmentNumberToIndex segment_set (outletSegment seg) < length ?si1
      \<and> segmentNumberToIndex segment_set (segmentNumber seg) < N"
      using rest by simp
    have e1: "\<forall>l \<in> set ?si1. \<forall>i \<in> set l. i < N"
    proof (intro ballI)
      fix l i assume l: "l \<in> set ?si1" and i: "i \<in> set l"
      from l have "l = si0 ! ?o @ [?s] \<or> l \<in> set si0"
        using set_update_subset_insert [of si0 ?o "si0 ! ?o @ [?s]"] by auto
      then show "i < N"
      proof
        assume "l = si0 ! ?o @ [?s]"
        with i have "i \<in> set (si0 ! ?o) \<or> i = ?s" by auto
        moreover have "si0 ! ?o \<in> set si0" using lt by simp
        ultimately show ?thesis using Cons.prems(2) sN by auto
      next
        assume "l \<in> set si0"
        with i Cons.prems(2) show ?thesis by auto
      qed
    qed
    from Cons.IH [OF r1 e1] obtain si where
      "segment_inlets_loop segment_set segs ?si1 = Inr si"
      "length si = length ?si1" "\<forall>l \<in> set si. \<forall>i \<in> set l. i < N"
      by blast
    then show ?thesis using True lt by (simp add: Let_def)
  next
    case False
    from Cons.IH [OF rest Cons.prems(2)] show ?thesis using False by simp
  qed
qed

lemma segment_pressure_loop_ok:
  "\<forall>seg \<in> set segs. seg < length sperf \<and> seg < length sp0
      \<and> (sperf ! seg \<noteq> [] \<longrightarrow> sperf ! seg ! 0 < length perf_press)
      \<and> (sperf ! seg = [] \<longrightarrow>
            segmentNumberToIndex segment_set (outletSegment (segment_list segment_set ! seg))
              < length sp0) \<Longrightarrow>
   \<exists>sp. segment_pressure_loop segment_set sperf perf_press segs sp0 = Inr sp"
proof (induction segs arbitrary: sp0)
  case Nil
  then show ?case by simp
next
  case (Cons seg segs)
  have here: "seg < length sperf" "seg < length sp0"
    "sperf ! seg \<noteq> [] \<Longrightarrow> sperf ! seg ! 0 < length perf_press"
    "sperf ! seg = [] \<Longrightarrow>
       segmentNumberToIndex segment_set (outletSegment (segment_list segment_set ! seg))
         < length sp0"
    using Cons.prems by simp_all
  have rest: "\<And>v j. \<forall>seg \<in> set segs. seg < length sperf \<and> seg < length (sp0[j := v])
      \<and> (sperf ! seg \<noteq> [] \<longrightarrow> sperf ! seg ! 0 < length perf_press)
      \<and> (sperf ! seg = [] \<longrightarrow>
            segmentNumberToIndex segment_set (outletSegment (segment_list segment_set ! seg))
              < length (sp0[j := v]))"
    using Cons.prems by simp
  show ?case
  proof (cases "sperf ! seg = []")
    case True
    from Cons.IH [OF rest] show ?thesis using True here by (simp add: Let_def)
  next
    case False
    from Cons.IH [OF rest] show ?thesis using False here by (simp add: Let_def)
  qed
qed

lemma calculateSegmentRates_total:
  assumes "no_revisit inl [] 0" and "inlets_ok inl" and "length perfs = length inl"
    and "perforations_ok np perfs pr" and "length sr = np * length inl"
  shows "\<exists>d0 r. \<forall>d\<ge>d0. calculateSegmentRates d inl perfs pr np 0 sr = Some (Inr r)"
proof -
  from no_revisit_returns [OF assms(1)] obtain d0 res where
    res: "calculateSegmentRates d0 inl perfs pr np 0 sr = Some res"
    by (metis not_None_eq)
  have top: "0 < length inl" using assms(2) by (simp add: inlets_ok_def)
  from calculateSegmentRates_no_error [OF assms(2,3,4) top assms(5) res] obtain r where
    "res = Inr r" by blast
  with res have "\<forall>d\<ge>d0. calculateSegmentRates d inl perfs pr np 0 sr = Some (Inr r)"
    using calculateSegmentRates_depth_le by blast
  then show ?thesis by blast
qed

lemma initWellStateMSWell_well_total:
  assumes ok: "ms_well_ok pu well_ecl ws" and ms: "isMultiSegment well_ecl"
  shows "\<exists>d0 ws'. \<forall>d\<ge>d0. initWellStateMSWell_well d pu well_ecl ws = Some (Done ws')"
proof -
  let ?np = "num_phases pu" and ?set = "getSegments well_ecl"
  let ?nseg = "length (segment_list ?set)"
  let ?idx = "segmentNumberToIndex ?set"
  let ?n = "num_active_perforations well_ecl"
  let ?ws1 = "ws\<lparr>segments := SegmentState_new ?np ?nseg\<rparr>"
  from ok have nseg: "0 < ?nseg"
    and conns: "\<forall>c \<in> set (getConnections well_ecl).
                  conn_state c = Connection_OPEN \<longrightarrow> ?idx (conn_segment c) < ?nseg"
    and segs: "\<forall>seg \<in> set (segment_list ?set). 0 < outletSegment seg \<longrightarrow>
                 ?idx (outletSegment seg) < ?nseg \<and> ?idx (segmentNumber seg) < ?nseg"
    and outs: "\<forall>seg<?nseg. 0 < seg \<longrightarrow> ?idx (outletSegment (segment_list ?set ! seg)) < ?nseg"
    and rates_len: "?np * ?n \<le> length (phase_rates (perf_data ws))"
    and press_len: "?n \<le> length (pressure (perf_data ws))"
    and gpos: "phase_used pu Gas \<longrightarrow> phase_pos pu Gas < ?np"
    and acyc: "no_revisit (segment_inlets_of well_ecl) [] 0"
    unfolding ms_well_ok_def Let_def by blast+
  have "\<exists>sp n. segment_perforations_loop ?set (getConnections well_ecl) (replicate ?nseg []) 0
                  = Inr (sp, n)
          \<and> length sp = length (replicate ?nseg ([]::nat list))
          \<and> (\<forall>l \<in> set sp. \<forall>k \<in> set l. k < n)"
    by (rule segment_perforations_loop_ok) (use conns in simp_all)
  then obtain sp n where sp:
    "segment_perforations_loop ?set (getConnections well_ecl) (replicate ?nseg []) 0 = Inr (sp, n)"
    and lsp: "length sp = ?nseg" and esp: "\<forall>l \<in> set sp. \<forall>k \<in> set l. k < n"
    by auto
  from segment_perforations_loop_count [OF sp]
  have n: "n = ?n" by (simp add: num_active_perforations_def)
  have "\<exists>si. segment_inlets_loop ?set (segment_list ?set) (replicate ?nseg []) = Inr si
          \<and> length si = length (replicate ?nseg ([]::nat list))
          \<and> (\<forall>l \<in> set si. \<forall>i \<in> set l. i < ?nseg)"
    by (rule segment_inlets_loop_ok) (use segs in simp_all)
  then obtain si where si:
    "segment_inlets_loop ?set (segment_list ?set) (replicate ?nseg []) = Inr si"
    and lsi: "length si = ?nseg" and esi: "\<forall>l \<in> set si. \<forall>i \<in> set l. i < ?nseg"
    by auto
  have si_of: "segment_inlets_of well_ecl = si"
    by (simp add: segment_inlets_of_def Let_def si)
  define ws2 where "ws2 =
    (if phase_used pu Gas
     then ?ws1\<lparr>perf_data := (perf_data ?ws1)
            \<lparr>phase_rates := scale_gas ?np (phase_pos pu Gas) n (phase_rates (perf_data ?ws1))\<rparr>\<rparr>
     else ?ws1)"
  have nb: "\<not> (phase_used pu Gas \<and> 0 < n
               \<and> \<not> (n - 1) * ?np + phase_pos pu Gas < length (phase_rates (perf_data ?ws1)))"
  proof
    assume a: "phase_used pu Gas \<and> 0 < n
               \<and> \<not> (n - 1) * ?np + phase_pos pu Gas < length (phase_rates (perf_data ?ws1))"
    then have g: "phase_pos pu Gas < ?np" using gpos by simp
    from a have "Suc (n - 1) = n" by simp
    then have "?np * n = (n - 1) * ?np + ?np" by (metis mult.commute mult_Suc add.commute)
    then have "(n - 1) * ?np + phase_pos pu Gas < ?np * n" using g by simp
    with rates_len n a show False by simp
  qed
  have unfold: "\<And>depth. initWellStateMSWell_well depth pu well_ecl ws =
    (case calculateSegmentRates depth si sp (phase_rates (perf_data ws2)) ?np 0
            (seg_rates (segments ws2)) of
       None \<Rightarrow> None
     | Some (Inl e) \<Rightarrow> Some (Threw e ws2)
     | Some (Inr segment_rates) \<Rightarrow>
         let ws3 = ws2\<lparr>segments := (segments ws2)\<lparr>seg_rates := segment_rates\<rparr>\<rparr>
         in if \<not> 0 < length (seg_pressure (segments ws3))
            then Some (Threw OutOfBounds ws3)
            else
              case segment_pressure_loop ?set sp (pressure (perf_data ws3)) [1..<?nseg]
                     ((seg_pressure (segments ws3))[0 := bhp ws3]) of
                Inl e \<Rightarrow> Some (Threw e ws3)
              | Inr segment_pressure \<Rightarrow>
                  Some (Done (ws3\<lparr>segments :=
                          (segments ws3)\<lparr>seg_pressure := segment_pressure\<rparr>\<rparr>)))"
    using nb ms unfolding ws2_def
    by (cases "phase_used pu Gas"; cases "0 < n";
        simp add: initWellStateMSWell_well_def Let_def sp si
          cong: option.case_cong sum.case_cong if_cong)
  have seg2: "segments ws2 = SegmentState_new ?np ?nseg" by (simp add: ws2_def)
  have len2: "length (phase_rates (perf_data ws2)) = length (phase_rates (perf_data ws))"
    by (simp add: ws2_def length_scale_gas)
  have press2: "pressure (perf_data ws2) = pressure (perf_data ws)" by (simp add: ws2_def)
  have iok: "inlets_ok si" using nseg lsi esi by (auto simp add: inlets_ok_def)
  have pok: "perforations_ok ?np sp (phase_rates (perf_data ws2))"
    unfolding perforations_ok_def
  proof (intro ballI)
    fix l k assume "l \<in> set sp" "k \<in> set l"
    then have "k < n" using esp by blast
    then have "?np * k + ?np \<le> ?np * n" by (rule segment_in_bounds)
    then show "?np * k + ?np \<le> length (phase_rates (perf_data ws2))"
      using rates_len n len2 by simp
  qed
  have lsr: "length (seg_rates (segments ws2)) = ?np * length si"
    by (simp add: seg2 SegmentState_new_def lsi)
  have acyc': "no_revisit si [] 0" using acyc si_of by simp
  have lsp': "length sp = length si" using lsp lsi by simp
  from calculateSegmentRates_total [OF acyc' iok lsp' pok lsr] obtain d0 r where
    calc: "\<forall>d\<ge>d0. calculateSegmentRates d si sp (phase_rates (perf_data ws2)) ?np 0
                     (seg_rates (segments ws2)) = Some (Inr r)"
    by blast
  define ws3 where "ws3 = ws2\<lparr>segments := (segments ws2)\<lparr>seg_rates := r\<rparr>\<rparr>"
  have sp3: "seg_pressure (segments ws3) = replicate ?nseg 0"
    by (simp add: ws3_def seg2 SegmentState_new_def)
  have press3: "pressure (perf_data ws3) = pressure (perf_data ws)"
    by (simp add: ws3_def press2)
  have "\<exists>sprs. segment_pressure_loop ?set sp (pressure (perf_data ws3)) [1..<?nseg]
                  ((seg_pressure (segments ws3))[0 := bhp ws3]) = Inr sprs"
  proof (rule segment_pressure_loop_ok, intro ballI conjI impI)
    fix seg assume "seg \<in> set [1..<?nseg]"
    then have s: "0 < seg" "seg < ?nseg" by simp_all
    show "seg < length sp" using s lsp by simp
    show "seg < length ((seg_pressure (segments ws3))[0 := bhp ws3])" using s sp3 by simp
    show "segmentNumberToIndex ?set (outletSegment (segment_list ?set ! seg))
            < length ((seg_pressure (segments ws3))[0 := bhp ws3])"
      using outs s sp3 by simp
    assume ne: "sp ! seg \<noteq> []"
    have "sp ! seg \<in> set sp" using s lsp by simp
    moreover have "sp ! seg ! 0 \<in> set (sp ! seg)" using ne by simp
    ultimately have "sp ! seg ! 0 < n" using esp by blast
    then show "sp ! seg ! 0 < length (pressure (perf_data ws3))"
      using press_len n press3 by simp
  qed
  then obtain sprs where sprs:
    "segment_pressure_loop ?set sp (pressure (perf_data ws3)) [1..<?nseg]
       ((seg_pressure (segments ws3))[0 := bhp ws3]) = Inr sprs" ..
  have pos3: "0 < length (seg_pressure (segments ws3))" using sp3 nseg by simp
  have "\<forall>d\<ge>d0. initWellStateMSWell_well d pu well_ecl ws
           = Some (Done (ws3\<lparr>segments := (segments ws3)\<lparr>seg_pressure := sprs\<rparr>\<rparr>))"
  proof (intro allI impI)
    fix d assume "d0 \<le> d"
    then have c: "calculateSegmentRates d si sp (phase_rates (perf_data ws2)) ?np 0
                     (seg_rates (segments ws2)) = Some (Inr r)"
      using calc by simp
    show "initWellStateMSWell_well d pu well_ecl ws
           = Some (Done (ws3\<lparr>segments := (segments ws3)\<lparr>seg_pressure := sprs\<rparr>\<rparr>))"
      unfolding unfold c using pos3 sprs by (simp add: Let_def ws3_def [symmetric])
  qed
  then show ?thesis by blast
qed

lemma ms_well_loop_total:
  "length es \<le> length ws \<Longrightarrow>
   \<forall>i<length es. \<exists>d0 w'. \<forall>d\<ge>d0. body (d::nat) (es ! i) (ws ! i) = Some (Done w') \<Longrightarrow>
   \<exists>d0 ws'. \<forall>d\<ge>d0. ms_well_loop (body d) es ws = Some (Done ws')"
proof (induction es arbitrary: ws)
  case Nil
  then show ?case by simp
next
  case (Cons e es)
  from Cons.prems(1) obtain w ws0 where ws: "ws = w # ws0" by (cases ws) auto
  have "0 < length (e # es)" by simp
  from Cons.prems(2) [rule_format, OF this]
  have "\<exists>d0 w'. \<forall>d\<ge>d0. body d e w = Some (Done w')" unfolding ws by simp
  then obtain d1 w' where d1: "\<forall>d\<ge>d1. body d e w = Some (Done w')" by (elim exE)
  have rest: "\<forall>i<length es. \<exists>d0 w'. \<forall>d\<ge>d0. body d (es ! i) (ws0 ! i) = Some (Done w')"
  proof (intro allI impI)
    fix i assume "i < length es"
    then have "Suc i < length (e # es)" by simp
    from Cons.prems(2) [rule_format, OF this]
    show "\<exists>d0 w'. \<forall>d\<ge>d0. body d (es ! i) (ws0 ! i) = Some (Done w')"
      unfolding ws by simp
  qed
  have len: "length es \<le> length ws0" using Cons.prems(1) ws by simp
  from Cons.IH [OF len rest] obtain d2 ws2 where
    d2: "\<forall>d\<ge>d2. ms_well_loop (body d) es ws0 = Some (Done ws2)"
    by (elim exE)
  have "\<forall>d\<ge>max d1 d2. ms_well_loop (body d) (e # es) ws = Some (Done (w' # ws2))"
  proof (intro allI impI)
    fix d assume "max d1 d2 \<le> d"
    then have "d1 \<le> d" "d2 \<le> d" by simp_all
    then have a: "body d e w = Some (Done w')"
      and b: "ms_well_loop (body d) es ws0 = Some (Done ws2)"
      using d1 [rule_format, of d] d2 [rule_format, of d] by simp_all
    show "ms_well_loop (body d) (e # es) ws = Some (Done (w' # ws2))"
      unfolding ws by (simp add: a b)
  qed
  then show ?case by blast
qed

lemma initWellStateMSWell_total:
  assumes "length wells_ecl \<le> length (wells this)"
    and "\<forall>w<length wells_ecl. isMultiSegment (wells_ecl ! w) \<longrightarrow>
           ms_well_ok (phase_usage this) (wells_ecl ! w) (wells this ! w)"
  shows "\<exists>d0 st. \<forall>d\<ge>d0. initWellStateMSWell d wells_ecl prev_well_state this = Some (Done st)"
proof -
  have "\<forall>i<length wells_ecl. \<exists>d0 w'. \<forall>d\<ge>d0.
          initWellStateMSWell_well d (phase_usage this) (wells_ecl ! i) (wells this ! i)
            = Some (Done w')"
  proof (intro allI impI)
    fix i assume i: "i < length wells_ecl"
    show "\<exists>d0 w'. \<forall>d\<ge>d0.
          initWellStateMSWell_well d (phase_usage this) (wells_ecl ! i) (wells this ! i)
            = Some (Done w')"
    proof (cases "isMultiSegment (wells_ecl ! i)")
      case True
      with assms(2) i have "ms_well_ok (phase_usage this) (wells_ecl ! i) (wells this ! i)"
        by simp
      then show ?thesis using True by (rule initWellStateMSWell_well_total)
    next
      case False
      then show ?thesis by (simp add: initWellStateMSWell_well_def)
    qed
  qed
  from ms_well_loop_total [where body = "\<lambda>d. initWellStateMSWell_well d (phase_usage this)",
      OF assms(1) this]
  obtain d0 ws where loop:
    "\<forall>d\<ge>d0. ms_well_loop (initWellStateMSWell_well d (phase_usage this)) wells_ecl (wells this)
               = Some (Done ws)"
    by blast
  have "\<forall>d\<ge>d0. initWellStateMSWell d wells_ecl prev_well_state this
               = Some (Done (if wells_ecl = [] then this
                  else this\<lparr>wells :=
                    (case prev_well_state of
                       None \<Rightarrow> ws
                     | Some prev \<Rightarrow> map2 (copy_segments prev) wells_ecl ws)\<rparr>))"
  proof (intro allI impI)
    fix d assume "d0 \<le> d"
    then have l: "ms_well_loop (initWellStateMSWell_well d (phase_usage this)) wells_ecl
                    (wells this) = Some (Done ws)"
      using loop by blast
    show "initWellStateMSWell d wells_ecl prev_well_state this
               = Some (Done (if wells_ecl = [] then this
                  else this\<lparr>wells :=
                    (case prev_well_state of
                       None \<Rightarrow> ws
                     | Some prev \<Rightarrow> map2 (copy_segments prev) wells_ecl ws)\<rparr>))"
      by (simp add: initWellStateMSWell_def l)
  qed
  then show ?thesis by blast
qed

lemma initWellStateMSWell_well_unfold:
  assumes "isMultiSegment well_ecl"
    and "segment_perforations_loop (getSegments well_ecl) (getConnections well_ecl)
           (replicate (length (segment_list (getSegments well_ecl))) []) 0 = Inr (sp, n)"
    and "segment_inlets_loop (getSegments well_ecl) (segment_list (getSegments well_ecl))
           (replicate (length (segment_list (getSegments well_ecl))) []) = Inr si"
    and "\<not> (phase_used pu Gas \<and> 0 < n
            \<and> \<not> (n - 1) * num_phases pu + phase_pos pu Gas < length (phase_rates (perf_data ws)))"
    and "ws2 =
      (if phase_used pu Gas
       then ws\<lparr>segments := SegmentState_new (num_phases pu)
                               (length (segment_list (getSegments well_ecl))),
               perf_data := (perf_data ws)
                 \<lparr>phase_rates := scale_gas (num_phases pu) (phase_pos pu Gas) n
                                   (phase_rates (perf_data ws))\<rparr>\<rparr>
       else ws\<lparr>segments := SegmentState_new (num_phases pu)
                               (length (segment_list (getSegments well_ecl)))\<rparr>)"
  shows "initWellStateMSWell_well depth pu well_ecl ws =
    (case calculateSegmentRates depth si sp (phase_rates (perf_data ws2)) (num_phases pu) 0
            (seg_rates (segments ws2)) of
       None \<Rightarrow> None
     | Some (Inl e) \<Rightarrow> Some (Threw e ws2)
     | Some (Inr segment_rates) \<Rightarrow>
         let ws3 = ws2\<lparr>segments := (segments ws2)\<lparr>seg_rates := segment_rates\<rparr>\<rparr>
         in if \<not> 0 < length (seg_pressure (segments ws3))
            then Some (Threw OutOfBounds ws3)
            else
              case segment_pressure_loop (getSegments well_ecl) sp (pressure (perf_data ws3))
                     [1..<length (segment_list (getSegments well_ecl))]
                     ((seg_pressure (segments ws3))[0 := bhp ws3]) of
                Inl e \<Rightarrow> Some (Threw e ws3)
              | Inr segment_pressure \<Rightarrow>
                  Some (Done (ws3\<lparr>segments :=
                          (segments ws3)\<lparr>seg_pressure := segment_pressure\<rparr>\<rparr>)))"
  using assms(4) assms(1) unfolding assms(5)
  by (cases "phase_used pu Gas"; cases "0 < n";
      simp add: initWellStateMSWell_well_def Let_def assms(2,3)
        cong: option.case_cong sum.case_cong if_cong)

lemma initWellStateMSWell_well_mono:
  assumes "initWellStateMSWell_well d pu well_ecl ws = Some x" and "d \<le> d'"
  shows "initWellStateMSWell_well d' pu well_ecl ws = Some x"
proof (cases "isMultiSegment well_ecl")
  case False
  then show ?thesis using assms(1) by (simp add: initWellStateMSWell_well_def)
next
  case ms: True
  let ?set = "getSegments well_ecl"
  let ?nseg = "length (segment_list ?set)"
  show ?thesis
  proof (cases "segment_perforations_loop ?set (getConnections well_ecl) (replicate ?nseg []) 0")
    case (Inl e)
    have "\<And>k. initWellStateMSWell_well k pu well_ecl ws =
                initWellStateMSWell_well d pu well_ecl ws"
      by (simp add: initWellStateMSWell_well_def Let_def ms Inl)
    then show ?thesis using assms(1) by simp
  next
    case (Inr pr)
    obtain sp n where pr: "pr = (sp, n)" by (cases pr)
    note L1 = Inr [unfolded pr]
    show ?thesis
    proof (cases "segment_inlets_loop ?set (segment_list ?set) (replicate ?nseg [])")
      case (Inl e)
      have "\<And>k. initWellStateMSWell_well k pu well_ecl ws =
                  initWellStateMSWell_well d pu well_ecl ws"
        by (simp add: initWellStateMSWell_well_def Let_def ms L1 Inl)
      then show ?thesis using assms(1) by simp
    next
      case (Inr si)
      show ?thesis
      proof (cases "phase_used pu Gas \<and> 0 < n
            \<and> \<not> (n - 1) * num_phases pu + phase_pos pu Gas < length (phase_rates (perf_data ws))")
        case True
        have "\<And>k. initWellStateMSWell_well k pu well_ecl ws =
                    initWellStateMSWell_well d pu well_ecl ws"
          using True by (simp add: initWellStateMSWell_well_def Let_def ms L1 Inr)
        then show ?thesis using assms(1) by simp
      next
        case False
        note U = initWellStateMSWell_well_unfold [OF ms L1 Inr False refl]
        let ?calc = "\<lambda>k. calculateSegmentRates k si sp
            (phase_rates (perf_data
               (if phase_used pu Gas
                then ws\<lparr>segments := SegmentState_new (num_phases pu) ?nseg,
                        perf_data := (perf_data ws)
                          \<lparr>phase_rates := scale_gas (num_phases pu) (phase_pos pu Gas) n
                                            (phase_rates (perf_data ws))\<rparr>\<rparr>
                else ws\<lparr>segments := SegmentState_new (num_phases pu) ?nseg\<rparr>)))
            (num_phases pu) 0
            (seg_rates (segments
               (if phase_used pu Gas
                then ws\<lparr>segments := SegmentState_new (num_phases pu) ?nseg,
                        perf_data := (perf_data ws)
                          \<lparr>phase_rates := scale_gas (num_phases pu) (phase_pos pu Gas) n
                                            (phase_rates (perf_data ws))\<rparr>\<rparr>
                else ws\<lparr>segments := SegmentState_new (num_phases pu) ?nseg\<rparr>)))"
        from assms(1) obtain y where y: "?calc d = Some y"
          unfolding U [of d] by (cases "?calc d") simp_all
        have y': "?calc d' = Some y"
          by (rule calculateSegmentRates_depth_le [OF y assms(2)])
        have "initWellStateMSWell_well d' pu well_ecl ws =
              initWellStateMSWell_well d pu well_ecl ws"
          unfolding U [of d'] U [of d] y y' ..
        then show ?thesis using assms(1) by simp
      qed
    qed
  qed
qed

lemma ms_well_loop_mono:
  assumes "\<And>e w y. body e w = Some y \<Longrightarrow> body' e w = Some y"
  shows "ms_well_loop body es ws = Some x \<Longrightarrow> ms_well_loop body' es ws = Some x"
proof (induction es arbitrary: ws x)
  case Nil
  then show ?case by simp
next
  case (Cons e es)
  show ?case
  proof (cases ws)
    case Nil
    with Cons.prems show ?thesis by simp
  next
    case ws: (Cons w ws0)
    from Cons.prems obtain r where r: "body e w = Some r"
      unfolding ws by (cases "body e w") simp_all
    then have r': "body' e w = Some r" by (rule assms)
    show ?thesis
    proof (cases r)
      case (Threw ex w')
      with Cons.prems r r' show ?thesis unfolding ws by simp
    next
      case (Done w')
      from Cons.prems r Done obtain l where l: "ms_well_loop body es ws0 = Some l"
        unfolding ws by (cases "ms_well_loop body es ws0") simp_all
      from Cons.IH [OF l] have "ms_well_loop body' es ws0 = Some l" .
      with Cons.prems r r' Done l show ?thesis unfolding ws by simp
    qed
  qed
qed

lemma initWellStateMSWell_mono:
  assumes "initWellStateMSWell d wells_ecl prev_well_state this = Some x" and "d \<le> d'"
  shows "initWellStateMSWell d' wells_ecl prev_well_state this = Some x"
proof (cases "wells_ecl = []")
  case True
  then show ?thesis using assms(1) by (simp add: initWellStateMSWell_def)
next
  case False
  let ?loop = "\<lambda>k. ms_well_loop (initWellStateMSWell_well k (phase_usage this)) wells_ecl
                       (wells this)"
  from assms(1) False obtain l where l: "?loop d = Some l"
    by (cases "?loop d") (simp_all add: initWellStateMSWell_def)
  have "?loop d' = Some l"
  proof (rule ms_well_loop_mono [OF _ l])
    fix e w y
    assume "initWellStateMSWell_well d (phase_usage this) e w = Some y"
    then show "initWellStateMSWell_well d' (phase_usage this) e w = Some y"
      using assms(2) by (rule initWellStateMSWell_well_mono)
  qed
  then have "initWellStateMSWell d' wells_ecl prev_well_state this
               = initWellStateMSWell d wells_ecl prev_well_state this"
    using l False by (simp add: initWellStateMSWell_def)
  then show ?thesis using assms(1) by simp
qed

text \<open>
  C1, as the code has it. On wells that keep \<^verbatim>\<open>initWellStateMSWell\<close> inside its vectors
  and whose inlet relation is acyclic, the call returns: some recursion depth is
  enough, and no depth gives another result. It multiplies the gas rates by 100 in
  place, in the perforation data of the well, before it aggregates them: in the state
  it returns, for a multi-segment well with a gas phase, the surface rates of the well
  are as before, and so is every per-perforation rate of another phase or of a
  perforation that is not active; the persisted gas rate of every active perforation
  is 100 times its value before, and \<^verbatim>\<open>reportConnections\<close> reports that scaled gas rate
  for the connection.
\<close>

theorem initWellStateMSWell_gas_scaling:
  assumes "length wells_ecl \<le> length (wells this)"
    and "\<forall>w<length wells_ecl. isMultiSegment (wells_ecl ! w) \<longrightarrow>
           ms_well_ok (phase_usage this) (wells_ecl ! w) (wells this ! w)"
    and "phase_used (phase_usage this) Gas"
  shows "\<exists>depth st.
      (\<forall>d\<ge>depth. initWellStateMSWell d wells_ecl prev_well_state this = Some (Done st))
    \<and> (\<forall>d res. initWellStateMSWell d wells_ecl prev_well_state this = Some res \<longrightarrow>
                 res = Done st)
    \<and> (\<forall>w<length wells_ecl. isMultiSegment (wells_ecl ! w) \<longrightarrow>
          surface_rates (wells st ! w) = surface_rates (wells this ! w)
          \<and> (\<forall>perf p. p < num_phases (phase_usage this) \<longrightarrow>
                num_phases (phase_usage this) * perf + p
                  < length (phase_rates (perf_data (wells this ! w))) \<longrightarrow>
                phase_rates (perf_data (wells st ! w)) ! (num_phases (phase_usage this) * perf + p)
                  = (if p = phase_pos (phase_usage this) Gas
                        \<and> perf < num_active_perforations (wells_ecl ! w)
                     then phase_rates (perf_data (wells this ! w))
                            ! (num_phases (phase_usage this) * perf + p) * 100
                     else phase_rates (perf_data (wells this ! w))
                            ! (num_phases (phase_usage this) * perf + p)))
          \<and> (\<forall>connections globalCellIdxMap conns i.
                reportConnections connections (phase_usage this) w globalCellIdxMap st
                  = Inr conns \<longrightarrow>
                i < perf_size (perf_data (wells st ! w)) \<longrightarrow>
                i < num_active_perforations (wells_ecl ! w) \<longrightarrow>
                conn_rates (conns ! i) gas
                  = Some (phase_rates (perf_data (wells this ! w))
                            ! (num_phases (phase_usage this) * i
                               + phase_pos (phase_usage this) Gas)
                          * 100)))"
proof -
  let ?init = "\<lambda>d. initWellStateMSWell d wells_ecl prev_well_state this"
  from initWellStateMSWell_total [OF assms(1,2)] obtain depth st where
    ret: "\<forall>d\<ge>depth. ?init d = Some (Done st)"
    by blast
  have run: "?init depth = Some (Done st)" using ret by simp
  have unique: "\<forall>d res. ?init d = Some res \<longrightarrow> res = Done st"
  proof (intro allI impI)
    fix d res assume a: "?init d = Some res"
    have "?init (max d depth) = Some res"
      by (rule initWellStateMSWell_mono [OF a]) simp
    moreover have "?init (max d depth) = Some (Done st)" using ret by simp
    ultimately show "res = Done st" by simp
  qed
  let ?pu = "phase_usage this"
  let ?np = "num_phases ?pu" and ?g = "phase_pos ?pu Gas"
  have props: "\<forall>w<length wells_ecl. isMultiSegment (wells_ecl ! w) \<longrightarrow>
          surface_rates (wells st ! w) = surface_rates (wells this ! w)
          \<and> (\<forall>perf p. p < ?np \<longrightarrow>
                ?np * perf + p < length (phase_rates (perf_data (wells this ! w))) \<longrightarrow>
                phase_rates (perf_data (wells st ! w)) ! (?np * perf + p)
                  = (if p = ?g \<and> perf < num_active_perforations (wells_ecl ! w)
                     then phase_rates (perf_data (wells this ! w)) ! (?np * perf + p) * 100
                     else phase_rates (perf_data (wells this ! w)) ! (?np * perf + p)))
          \<and> (\<forall>connections globalCellIdxMap conns i.
                reportConnections connections ?pu w globalCellIdxMap st = Inr conns \<longrightarrow>
                i < perf_size (perf_data (wells st ! w)) \<longrightarrow>
                i < num_active_perforations (wells_ecl ! w) \<longrightarrow>
                conn_rates (conns ! i) gas
                  = Some (phase_rates (perf_data (wells this ! w)) ! (?np * i + ?g) * 100))"
  proof (intro allI impI conjI)
    fix w
    assume w: "w < length wells_ecl" and ms: "isMultiSegment (wells_ecl ! w)"
    let ?n = "num_active_perforations (wells_ecl ! w)"
    let ?old = "phase_rates (perf_data (wells this ! w))"
    have "ms_well_ok ?pu (wells_ecl ! w) (wells this ! w)" using assms(2) w ms by simp
    then have gp: "?g < ?np" using assms(3) unfolding ms_well_ok_def Let_def by blast
    from initWellStateMSWell_Done(1) [OF run w] obtain ws' where
      b: "initWellStateMSWell_well depth ?pu (wells_ecl ! w) (wells this ! w) = Some (Done ws')"
      and s: "wells st ! w = ws'\<lparr>segments := segments (wells st ! w)\<rparr>"
      by blast
    from initWellStateMSWell_well_Done [OF b ms] assms(3) have
      f: "ws' = (wells this ! w)\<lparr>perf_data := (perf_data (wells this ! w))
                   \<lparr>phase_rates := scale_gas ?np ?g ?n ?old\<rparr>,
                 segments := segments ws'\<rparr>"
      and bound: "0 < ?n \<Longrightarrow> (?n - 1) * ?np + ?g < length ?old"
      by simp_all
    show "surface_rates (wells st ! w) = surface_rates (wells this ! w)"
      by (subst s, subst f) simp
    have pr: "phase_rates (perf_data (wells st ! w)) = scale_gas ?np ?g ?n ?old"
      by (subst s, subst f) simp
    {
      fix perf p
      assume p: "p < ?np" and lt: "?np * perf + p < length ?old"
      show "phase_rates (perf_data (wells st ! w)) ! (?np * perf + p)
          = (if p = ?g \<and> perf < ?n then ?old ! (?np * perf + p) * 100
             else ?old ! (?np * perf + p))"
        unfolding pr by (rule scale_gas_nth [OF gp p lt])
    }
    {
      fix connections globalCellIdxMap conns i
      assume r: "reportConnections connections ?pu w globalCellIdxMap st = Inr conns"
        and i: "i < perf_size (perf_data (wells st ! w))" and a: "i < ?n"
      from a have "i \<le> ?n - 1" by simp
      then have "?np * i \<le> (?n - 1) * ?np" by (simp add: mult.commute)
      with bound a have lt: "?np * i + ?g < length ?old" by linarith
      from reportConnections_gas(1) [OF r assms(3) i]
      have "conn_rates (conns ! i) gas
              = Some (phase_rates (perf_data (wells st ! w)) ! (?np * i + ?g))" .
      also have "phase_rates (perf_data (wells st ! w)) ! (?np * i + ?g)
                   = ?old ! (?np * i + ?g) * 100"
        unfolding pr using scale_gas_nth [OF gp gp lt, of ?n] a by simp
      finally show "conn_rates (conns ! i) gas = Some (?old ! (?np * i + ?g) * 100)" .
    }
  qed
  show ?thesis
    by (intro exI [of _ depth] exI [of _ st] conjI) (fact ret, fact unique, fact props)
qed

theorem initWellStateMSWell_gas_scaling_witness:
  "(\<exists>depth. \<forall>d\<ge>depth. initWellStateMSWell d [ms_well] None ms_state
                            = Some (Done ms_state_after))
   \<and> surface_rates (wells ms_state_after ! 0) = surface_rates (wells ms_state ! 0)
   \<and> phase_rates (perf_data (wells ms_state_after ! 0)) ! (3 * 0 + 2)
       = phase_rates (perf_data (wells ms_state ! 0)) ! (3 * 0 + 2) * 100
   \<and> conn_rates (projr (reportConnections [] pu_3 0 [17] ms_state_after) ! 0) gas
       = Some (phase_rates (perf_data (wells ms_state ! 0)) ! (3 * 0 + 2) * 100)"
proof -
  have "case initWellStateMSWell 2 [ms_well] None ms_state of
          Some (Done x) \<Rightarrow> True | _ \<Rightarrow> False"
    by code_simp
  then have run: "initWellStateMSWell 2 [ms_well] None ms_state = Some (Done ms_state_after)"
    unfolding ms_state_after_def by (rule returns_Done_state)
  have w: "0 < length [ms_well]" by simp
  have ms: "isMultiSegment ([ms_well] ! 0)" by (simp add: ms_well_def)
  have pu: "phase_usage ms_state = pu_3" by (simp add: ms_state_def empty_state_def)
  have gas: "phase_used (phase_usage ms_state) Gas" by (simp add: pu pu_3_def)
  have np: "num_phases (phase_usage ms_state) = 3" and g: "phase_pos (phase_usage ms_state) Gas = 2"
    by (simp_all add: pu pu_3_def)
  have n: "num_active_perforations ([ms_well] ! 0) = 1"
    by (simp add: num_active_perforations_def ms_well_def)
  have len: "length [ms_well] \<le> length (wells ms_state)" by (simp add: ms_state_def)
  have si: "segment_inlets_of ms_well = [[1], []]" by code_simp
  have leaf: "no_revisit [[1], []] [0] 1" by (rule no_revisitI) simp_all
  have top: "no_revisit [[1], []] [] 0"
  proof (rule no_revisitI)
    show "0 \<notin> set []" by simp
  next
    fix i :: nat assume "i \<in> set ([[1], []] ! 0)"
    then have "i = 1" by simp
    then show "no_revisit [[1], []] [0] i" using leaf by simp
  qed
  have nseg: "length (segment_list (getSegments ms_well)) = 2"
    by (simp add: ms_well_def segments_2_def)
  have outs: "\<forall>seg<2. 0 < seg \<longrightarrow>
      segmentNumberToIndex (getSegments ms_well)
        (outletSegment (segment_list (getSegments ms_well) ! seg)) < 2"
  proof (intro allI impI)
    fix seg :: nat assume "seg < 2" "0 < seg"
    then have "seg = 1" by simp
    then show "segmentNumberToIndex (getSegments ms_well)
        (outletSegment (segment_list (getSegments ms_well) ! seg)) < 2"
      by (simp add: ms_well_def segments_2_def)
  qed
  have conns: "\<forall>c \<in> set (getConnections ms_well). conn_state c = Connection_OPEN \<longrightarrow>
      segmentNumberToIndex (getSegments ms_well) (conn_segment c) < 2"
    by (simp add: ms_well_def segments_2_def)
  have segs: "\<forall>seg \<in> set (segment_list (getSegments ms_well)). 0 < outletSegment seg \<longrightarrow>
      segmentNumberToIndex (getSegments ms_well) (outletSegment seg) < 2
      \<and> segmentNumberToIndex (getSegments ms_well) (segmentNumber seg) < 2"
    by (simp add: ms_well_def segments_2_def)
  have lens: "3 * 1 \<le> length (phase_rates (perf_data ms_well_state))"
    "1 \<le> length (pressure (perf_data ms_well_state))"
    by (simp_all add: ms_well_state_def PerfData_new_def one_perforation_def)
  have ok0: "ms_well_ok pu_3 ms_well ms_well_state"
    unfolding ms_well_ok_def Let_def nseg si
    using conns segs outs lens top n by (simp add: pu_3_def)
  have ok: "\<forall>w<length [ms_well]. isMultiSegment ([ms_well] ! w) \<longrightarrow>
              ms_well_ok (phase_usage ms_state) ([ms_well] ! w) (wells ms_state ! w)"
    using ok0 by (simp add: ms_state_def empty_state_def)
  have len2: "3 * 0 + 2 < length (phase_rates (perf_data (wells ms_state ! 0)))"
    by (simp add: ms_state_def ms_well_state_def)
  have "case reportConnections [] pu_3 0 [17] ms_state_after of
          Inr conns \<Rightarrow> True | Inl e \<Rightarrow> False"
    by code_simp
  then have rep: "reportConnections [] (phase_usage ms_state) 0 [17] ms_state_after
                    = Inr (projr (reportConnections [] pu_3 0 [17] ms_state_after))"
    unfolding pu by (simp split: sum.splits)
  have sz: "0 < perf_size (perf_data (wells ms_state_after ! 0))" by code_simp
  from initWellStateMSWell_gas_scaling [OF len ok gas, of None] obtain depth st where
    ret: "\<forall>d\<ge>depth. initWellStateMSWell d [ms_well] None ms_state = Some (Done st)"
    and unique: "\<forall>d res. initWellStateMSWell d [ms_well] None ms_state = Some res \<longrightarrow>
                   res = Done st"
    and props: "\<forall>w<length [ms_well]. isMultiSegment ([ms_well] ! w) \<longrightarrow>
          surface_rates (wells st ! w) = surface_rates (wells ms_state ! w)
          \<and> (\<forall>perf p. p < num_phases (phase_usage ms_state) \<longrightarrow>
                num_phases (phase_usage ms_state) * perf + p
                  < length (phase_rates (perf_data (wells ms_state ! w))) \<longrightarrow>
                phase_rates (perf_data (wells st ! w))
                    ! (num_phases (phase_usage ms_state) * perf + p)
                  = (if p = phase_pos (phase_usage ms_state) Gas
                        \<and> perf < num_active_perforations ([ms_well] ! w)
                     then phase_rates (perf_data (wells ms_state ! w))
                            ! (num_phases (phase_usage ms_state) * perf + p) * 100
                     else phase_rates (perf_data (wells ms_state ! w))
                            ! (num_phases (phase_usage ms_state) * perf + p)))
          \<and> (\<forall>connections globalCellIdxMap conns i.
                reportConnections connections (phase_usage ms_state) w globalCellIdxMap st
                  = Inr conns \<longrightarrow>
                i < perf_size (perf_data (wells st ! w)) \<longrightarrow>
                i < num_active_perforations ([ms_well] ! w) \<longrightarrow>
                conn_rates (conns ! i) gas
                  = Some (phase_rates (perf_data (wells ms_state ! w))
                            ! (num_phases (phase_usage ms_state) * i
                               + phase_pos (phase_usage ms_state) Gas)
                          * 100))"
    by (elim exE conjE)
  have st: "st = ms_state_after" using unique [rule_format, OF run] by simp
  note R = props [rule_format, OF w ms, unfolded st np g n]
  have z: "\<exists>depth. \<forall>d\<ge>depth. initWellStateMSWell d [ms_well] None ms_state
                                  = Some (Done ms_state_after)"
    using ret unfolding st by blast
  from R [THEN conjunct1]
  have a: "surface_rates (wells ms_state_after ! 0) = surface_rates (wells ms_state ! 0)" .
  from R [THEN conjunct2, THEN conjunct1, rule_format, of 2 0] len2
  have b: "phase_rates (perf_data (wells ms_state_after ! 0)) ! (3 * 0 + 2)
       = phase_rates (perf_data (wells ms_state ! 0)) ! (3 * 0 + 2) * 100"
    by simp
  from R [THEN conjunct2, THEN conjunct2, rule_format, OF rep sz]
  have c: "conn_rates (projr (reportConnections [] pu_3 0 [17] ms_state_after) ! 0) gas
       = Some (phase_rates (perf_data (wells ms_state ! 0)) ! (3 * 0 + 2) * 100)"
    by simp
  show ?thesis by (intro conjI) (fact z, fact a, fact b, fact c)
qed

text \<open>
  Counterexample to C1 as stated: a multi-segment producer with a gas phase and one open
  connection, whose gas rate is -3 on that connection before \<^verbatim>\<open>initWellStateMSWell\<close>.
  After it the persisted gas rate of the connection is -300, and \<^verbatim>\<open>reportConnections\<close>
  reports -300 as the gas rate of the connection: the factor has reached a persisted and
  a reported rate.
\<close>

theorem initWellStateMSWell_gas_scaling_counterexample:
  "isMultiSegment ms_well \<and> phase_used (phase_usage ms_state) Gas
   \<and> phase_rates (perf_data (wells ms_state ! 0)) ! (3 * 0 + 2) = - 3
   \<and> initWellStateMSWell 2 [ms_well] None ms_state = Some (Done ms_state_after)
   \<and> phase_rates (perf_data (wells ms_state_after ! 0)) ! (3 * 0 + 2) = - 300
   \<and> map (\<lambda>c. conn_rates c gas) (projr (reportConnections [] pu_3 0 [17] ms_state_after))
       = [Some (- 300)]"
proof -
  have a: "isMultiSegment ms_well" by (simp add: ms_well_def)
  have b: "phase_used (phase_usage ms_state) Gas"
    by (simp add: ms_state_def empty_state_def pu_3_def)
  have c: "phase_rates (perf_data (wells ms_state ! 0)) ! (3 * 0 + 2) = - 3" by code_simp
  have "case initWellStateMSWell 2 [ms_well] None ms_state of
          Some (Done x) \<Rightarrow> True | _ \<Rightarrow> False"
    by code_simp
  then have d: "initWellStateMSWell 2 [ms_well] None ms_state = Some (Done ms_state_after)"
    unfolding ms_state_after_def by (rule returns_Done_state)
  have e: "phase_rates (perf_data (wells ms_state_after ! 0)) ! (3 * 0 + 2) = - 300"
    by code_simp
  have f: "map (\<lambda>c. conn_rates c gas) (projr (reportConnections [] pu_3 0 [17] ms_state_after))
       = [Some (- 300)]"
    by code_simp
  show ?thesis by (intro conjI) (fact a, fact b, fact c, fact d, fact e, fact f)
qed

end
